theory Spec2Isabelle
  imports
    Main
    "HOL-Library.Word"
    "HOL-Library.Char_ord"
    "HOL-Library.List_Lexorder"
    "HOL-Library.AList"
begin

unbundle bit_operations_syntax

section \<open>Data model (main.go, lines 17-52)\<close>

text \<open>
  The YAML structures of main.go. Go strings are byte sequences and become \<open>string\<close>;
  Go's \<open>int\<close> becomes a 64-bit word. The field \<open>Type\<close> of \<open>Subnet\<close> is called
  \<open>SubnetType\<close> here, because \<open>NetworkConfigEntry\<close> has a field \<open>Type\<close> too; the
  embedded struct of \<open>Metadata\<close> is the field \<open>NetworkConfig_of\<close>.
\<close>

type_synonym go_int = "64 word"

record Subnet =
  Ipv4 :: bool
  Ipv6 :: bool
  SubnetType :: string
  Address :: string
  Gateway :: string
  DNSNameservers :: "string list"

record NetworkConfigEntry =
  Name :: string
  Type :: string
  MACAddress :: string
  Subnets :: "Subnet list"

record NetworkConfig =
  Version :: go_int
  Config :: "NetworkConfigEntry list"

record Metadata =
  NetworkConfig_of :: NetworkConfig

definition ConfigDir :: string where
  "ConfigDir = ''/run/systemd/network''"

definition ConfigPrefix :: string where
  "ConfigPrefix = ''80-hetzner-''"

definition ConfigSuffix :: string where
  "ConfigSuffix = ''.network''"

text \<open>\<open>strings.HasPrefix\<close> and \<open>strings.HasSuffix\<close> of the Go standard library.\<close>

definition strings_HasPrefix :: "string \<Rightarrow> string \<Rightarrow> bool" where
  "strings_HasPrefix s p = (take (length p) s = p)"

definition strings_HasSuffix :: "string \<Rightarrow> string \<Rightarrow> bool" where
  "strings_HasSuffix s p = (length p \<le> length s \<and> drop (length s - length p) s = p)"

section \<open>The outside world\<close>

text \<open>
  Every call that leaves the program (netlink, HTTP, the os package) is an entry of
  \<open>call\<close>. The environment \<open>env\<close> holds what the program cannot influence: the
  interfaces \<open>netlink.LinkList\<close> returns, the HTTP status and body, the YAML decoder, and
  for each call, by its number in the trace, whether it fails (\<open>faults\<close>). The \<open>world\<close>
  is the state the run changes: the calls made so far with their success (\<open>trace\<close>), the
  lines written by \<open>log.Printf\<close> (\<open>log\<close>, one constructor of \<open>log_line\<close> for each
  \<open>log.Printf\<close> of main.go, with its arguments other than the error), the directories
  \<open>os.MkdirAll\<close> has created (\<open>dirs\<close>) and the files (\<open>files\<close>).

  The files are an association list from path to content, read through \<open>map_of\<close>. Paths
  are compared as strings, and the configuration directory holds regular files only.
  A call that succeeds does what the library documents: \<open>os.MkdirAll\<close> creates the
  directory, \<open>os.ReadDir\<close> returns the names in the directory sorted by name,
  \<open>os.Remove\<close> removes the file, \<open>os.WriteFile\<close> creates the file or replaces its
  content. A failing call leaves the files as they are, except a failing
  \<open>os.WriteFile\<close>, which may have created or truncated the file before it failed:
  \<open>Partial n\<close> leaves the first \<open>n\<close> bytes of the data in the file, \<open>Untouched\<close> leaves the
  file alone.

  An interface (\<open>netlink.Link\<close>) is given by its attributes, name and flags; an address
  (\<open>netlink.Addr\<close>) by the bytes of its IP and of its mask (its scope, always the link
  scope here, is left out).
\<close>

record LinkAttrs =
  LinkName :: string
  Flags :: "64 word"

definition net_FlagUp :: "64 word" where
  "net_FlagUp = 1"

type_synonym IPNet = "8 word list \<times> 8 word list"

datatype call =
    NetlinkLinkList
  | NetlinkLinkSetUp string
  | NetlinkAddrAdd string IPNet
  | NetlinkAddrDel string IPNet
  | NetlinkLinkSetDown string
  | HttpGet string
  | IoReadAll
  | BodyClose
  | OsMkdirAll string
  | OsReadDir string
  | OsRemove string
  | OsWriteFile string string

datatype fault = Untouched | Partial nat

datatype log_line =
    LogCreating string
  | LogReadingDirectory string
  | LogRemoving string
  | LogWriting string
  | LogListingInterfaces
  | LogNoEthernetInterfaces
  | LogBringingUp string
  | LogAddingAddress string
  | LogFetching
  | LogHttpStatus go_int
  | LogReadError
  | LogParseError
  | LogUnknownVersion go_int

record env =
  links :: "LinkAttrs list"
  http_status :: go_int
  http_body :: string
  yaml_Unmarshal :: "string \<Rightarrow> Metadata option"
  faults :: "nat \<Rightarrow> fault option"

record world =
  trace :: "(call \<times> bool) list"
  log :: "log_line list"
  dirs :: "string list"
  files :: "(string \<times> string) list"

text \<open>One call: the environment decides its outcome, the trace records it.\<close>

definition syscall :: "env \<Rightarrow> call \<Rightarrow> world \<Rightarrow> fault option \<times> world" where
  "syscall E c w =
     (faults E (length (trace w)),
      w\<lparr>trace := trace w @ [(c, faults E (length (trace w)) = None)]\<rparr>)"

definition log_Printf :: "log_line \<Rightarrow> world \<Rightarrow> world" where
  "log_Printf l w = w\<lparr>log := log w @ [l]\<rparr>"

subsection \<open>The os package\<close>

text \<open>
  \<open>os.ReadDir\<close> returns the entries of the directory sorted by file name: the names \<open>n\<close>
  without a slash such that \<open>dir/n\<close> is a file.
\<close>

definition entry_name :: "string \<Rightarrow> string \<Rightarrow> string option" where
  "entry_name dir p =
     (let n = drop (length dir + 1) p
      in if take (length dir + 1) p = dir @ ''/'' \<and> n \<noteq> [] \<and> CHR ''/'' \<notin> set n
         then Some n else None)"

definition dir_entries :: "string \<Rightarrow> (string \<times> string) list \<Rightarrow> string list" where
  "dir_entries dir fs = sort (remdups (List.map_filter (entry_name dir) (map fst fs)))"

definition os_MkdirAll :: "env \<Rightarrow> string \<Rightarrow> world \<Rightarrow> bool \<times> world" where
  "os_MkdirAll E path w =
     (case syscall E (OsMkdirAll path) w of
        (None, w1) \<Rightarrow> (True, w1\<lparr>dirs := List.insert path (dirs w1)\<rparr>)
      | (Some f, w1) \<Rightarrow> (False, w1))"

definition os_ReadDir :: "env \<Rightarrow> string \<Rightarrow> world \<Rightarrow> string list option \<times> world" where
  "os_ReadDir E path w =
     (case syscall E (OsReadDir path) w of
        (None, w1) \<Rightarrow> (Some (dir_entries path (files w1)), w1)
      | (Some f, w1) \<Rightarrow> (None, w1))"

definition os_Remove :: "env \<Rightarrow> string \<Rightarrow> world \<Rightarrow> bool \<times> world" where
  "os_Remove E path w =
     (case syscall E (OsRemove path) w of
        (None, w1) \<Rightarrow> (True, w1\<lparr>files := AList.delete path (files w1)\<rparr>)
      | (Some f, w1) \<Rightarrow> (False, w1))"

definition os_WriteFile :: "env \<Rightarrow> string \<Rightarrow> string \<Rightarrow> world \<Rightarrow> bool \<times> world" where
  "os_WriteFile E path content w =
     (case syscall E (OsWriteFile path content) w of
        (None, w1) \<Rightarrow> (True, w1\<lparr>files := AList.update path content (files w1)\<rparr>)
      | (Some Untouched, w1) \<Rightarrow> (False, w1)
      | (Some (Partial n), w1) \<Rightarrow>
          (False, w1\<lparr>files := AList.update path (take n content) (files w1)\<rparr>))"

section \<open>writeConfigs (main.go, lines 54-132)\<close>

subsection \<open>Rendering one entry (lines 85-122)\<close>

text \<open>
  The loop over the subnets of an entry (lines 99-113). Its state is the pair of
  DHCP flags and the text of the config so far.
\<close>

fun subnets_loop :: "Subnet list \<Rightarrow> bool \<times> bool \<times> string \<Rightarrow> bool \<times> bool \<times> string" where
  "subnets_loop [] st = st"
| "subnets_loop (subnet # rest) (wantDHCPv4, wantDHCPv6, config) =
     (let wantDHCPv4 = (if SubnetType subnet = ''dhcp'' then wantDHCPv4 \<or> Ipv4 subnet else wantDHCPv4);
          wantDHCPv6 = (if SubnetType subnet = ''dhcp'' then wantDHCPv6 \<or> Ipv6 subnet else wantDHCPv6);
          config = (if Address subnet \<noteq> [] then config @ ''Address='' @ Address subnet @ ''\<newline>'' else config);
          config = (if Gateway subnet \<noteq> [] then config @ ''Gateway='' @ Gateway subnet @ ''\<newline>'' else config);
          config = foldl (\<lambda>c ns. c @ ''DNS='' @ ns @ ''\<newline>'') config (DNSNameservers subnet)
      in subnets_loop rest (wantDHCPv4, wantDHCPv6, config))"

definition render_config :: "NetworkConfigEntry \<Rightarrow> string" where
  "render_config entry =
     (let config = ''[Match]\<newline>'';
          config = config @ ''MACAddress='' @ MACAddress entry @ ''\<newline>'';
          config = config @ ''\<newline>'';
          config = config @ ''[Network]\<newline>'';
          config = config @ ''LinkLocalAddressing=yes\<newline>'';
          (wantDHCPv4, wantDHCPv6, config) = subnets_loop (Subnets entry) (False, False, config)
      in if wantDHCPv4 then
           (if wantDHCPv6 then config @ ''DHCP=yes\<newline>'' else config @ ''DHCP=ipv4\<newline>'')
         else if wantDHCPv6 then config @ ''DHCP=ipv6\<newline>''
         else config)"

definition configPath :: "NetworkConfigEntry \<Rightarrow> string" where
  "configPath entry = ConfigDir @ ''/'' @ ConfigPrefix @ Name entry @ ConfigSuffix"

subsection \<open>Cleaning up old configs (lines 62-77)\<close>

fun remove_loop :: "env \<Rightarrow> string list \<Rightarrow> bool \<Rightarrow> world \<Rightarrow> bool \<times> world" where
  "remove_loop E [] ok w = (ok, w)"
| "remove_loop E (name # rest) ok w =
     (if strings_HasPrefix name ConfigPrefix \<and> strings_HasSuffix name ConfigSuffix then
        (let path = ConfigDir @ ''/'' @ name in
         case os_Remove E path w of
           (True, w1) \<Rightarrow> remove_loop E rest ok w1
         | (False, w1) \<Rightarrow> remove_loop E rest False (log_Printf (LogRemoving path) w1))
      else remove_loop E rest ok w)"

definition cleanup :: "env \<Rightarrow> bool \<Rightarrow> world \<Rightarrow> bool \<times> world" where
  "cleanup E ok w =
     (case os_ReadDir E ConfigDir w of
        (None, w1) \<Rightarrow> (False, log_Printf (LogReadingDirectory ConfigDir) w1)
      | (Some dirEntries, w1) \<Rightarrow> remove_loop E dirEntries ok w1)"

subsection \<open>Writing new configs (lines 79-129)\<close>

fun write_loop :: "env \<Rightarrow> NetworkConfigEntry list \<Rightarrow> bool \<Rightarrow> world \<Rightarrow> bool \<times> world" where
  "write_loop E [] ok w = (ok, w)"
| "write_loop E (entry # rest) ok w =
     (if Type entry \<noteq> ''physical'' then write_loop E rest ok w
      else
        (case os_WriteFile E (configPath entry) (render_config entry) w of
           (True, w1) \<Rightarrow> write_loop E rest ok w1
         | (False, w1) \<Rightarrow> write_loop E rest False (log_Printf (LogWriting (configPath entry)) w1)))"

definition writeConfigs :: "env \<Rightarrow> NetworkConfigEntry list \<Rightarrow> world \<Rightarrow> bool \<times> world" where
  "writeConfigs E entries w =
     (let ok = True;
          (ok, w) = (case os_MkdirAll E ConfigDir w of
                       (True, w1) \<Rightarrow> (ok, w1)
                     | (False, w1) \<Rightarrow> (False, log_Printf (LogCreating ConfigDir) w1));
          (ok, w) = cleanup E ok w
      in write_loop E entries ok w)"

section \<open>main (main.go, lines 134-221)\<close>

subsection \<open>The netlink and HTTP calls\<close>

definition netlink_LinkList :: "env \<Rightarrow> world \<Rightarrow> LinkAttrs list option \<times> world" where
  "netlink_LinkList E w =
     (case syscall E NetlinkLinkList w of
        (None, w1) \<Rightarrow> (Some (links E), w1)
      | (Some f, w1) \<Rightarrow> (None, w1))"

definition netlink_LinkSetUp :: "env \<Rightarrow> LinkAttrs \<Rightarrow> world \<Rightarrow> bool \<times> world" where
  "netlink_LinkSetUp E link w =
     (case syscall E (NetlinkLinkSetUp (LinkName link)) w of (r, w1) \<Rightarrow> (r = None, w1))"

definition netlink_LinkSetDown :: "env \<Rightarrow> LinkAttrs \<Rightarrow> world \<Rightarrow> bool \<times> world" where
  "netlink_LinkSetDown E link w =
     (case syscall E (NetlinkLinkSetDown (LinkName link)) w of (r, w1) \<Rightarrow> (r = None, w1))"

definition netlink_AddrAdd :: "env \<Rightarrow> LinkAttrs \<Rightarrow> IPNet \<Rightarrow> world \<Rightarrow> bool \<times> world" where
  "netlink_AddrAdd E link addr w =
     (case syscall E (NetlinkAddrAdd (LinkName link) addr) w of (r, w1) \<Rightarrow> (r = None, w1))"

definition netlink_AddrDel :: "env \<Rightarrow> LinkAttrs \<Rightarrow> IPNet \<Rightarrow> world \<Rightarrow> bool \<times> world" where
  "netlink_AddrDel E link addr w =
     (case syscall E (NetlinkAddrDel (LinkName link) addr) w of (r, w1) \<Rightarrow> (r = None, w1))"

definition http_Get :: "env \<Rightarrow> string \<Rightarrow> world \<Rightarrow> bool \<times> world" where
  "http_Get E url w = (case syscall E (HttpGet url) w of (r, w1) \<Rightarrow> (r = None, w1))"

definition io_ReadAll :: "env \<Rightarrow> world \<Rightarrow> string option \<times> world" where
  "io_ReadAll E w =
     (case syscall E IoReadAll w of
        (None, w1) \<Rightarrow> (Some (http_body E), w1)
      | (Some f, w1) \<Rightarrow> (None, w1))"

definition metadata_url :: string where
  "metadata_url = ''http://169.254.169.254/hetzner/v1/metadata''"

text \<open>The link-local address 169.254.0.1/16 (lines 161-167).\<close>

definition llAddr :: IPNet where
  "llAddr = ([169, 254, 0, 1], [255, 255, 0, 0])"

subsection \<open>Looking for an ethernet interface with link (lines 142-157)\<close>

text \<open>
  The loop over the interfaces. Its state is \<open>haveLink\<close> and \<open>firstEn\<close>; the \<open>break\<close> of the
  source is the branch that does not recurse.
\<close>

fun links_loop :: "LinkAttrs list \<Rightarrow> bool \<times> LinkAttrs option \<Rightarrow> bool \<times> LinkAttrs option" where
  "links_loop [] (haveLink, firstEn) = (haveLink, firstEn)"
| "links_loop (link # rest) (haveLink, firstEn) =
     (if strings_HasPrefix (LinkName link) ''en'' \<or> strings_HasPrefix (LinkName link) ''eth'' then
        (if Flags link AND net_FlagUp \<noteq> 0 then (True, firstEn)
         else links_loop rest (haveLink, if firstEn = None then Some link else firstEn))
      else links_loop rest (haveLink, firstEn))"

text \<open>
  Listing the interfaces (lines 136-140): when \<open>netlink.LinkList\<close> fails, the failure is
  logged and the run goes on with no interface.
\<close>

definition list_links :: "env \<Rightarrow> world \<Rightarrow> LinkAttrs list \<times> world" where
  "list_links E w =
     (case netlink_LinkList E w of
        (None, w1) \<Rightarrow> ([], log_Printf LogListingInterfaces w1)
      | (Some ls, w1) \<Rightarrow> (ls, w1))"

subsection \<open>Bringing the first ethernet interface up (lines 168-185)\<close>

definition activate :: "env \<Rightarrow> LinkAttrs option \<Rightarrow> world \<Rightarrow> LinkAttrs option \<times> world" where
  "activate E firstEn w =
     (let w = (if firstEn = None then log_Printf LogNoEthernetInterfaces w else w);
          (firstEn, w) =
            (case firstEn of
               None \<Rightarrow> (None, w)
             | Some link \<Rightarrow>
                 (case netlink_LinkSetUp E link w of
                    (True, w1) \<Rightarrow> (Some link, w1)
                  | (False, w1) \<Rightarrow> (None, log_Printf (LogBringingUp (LinkName link)) w1)));
          (firstEn, w) =
            (case firstEn of
               None \<Rightarrow> (None, w)
             | Some link \<Rightarrow>
                 (case netlink_AddrAdd E link llAddr w of
                    (True, w1) \<Rightarrow> (Some link, w1)
                  | (False, w1) \<Rightarrow>
                      (let w2 = log_Printf (LogAddingAddress (LinkName link)) w1;
                           (down, w3) = netlink_LinkSetDown E link w2
                       in (None, w3))))
      in (firstEn, w))"

subsection \<open>Fetching the metadata (lines 187-210)\<close>

definition fetch :: "env \<Rightarrow> world \<Rightarrow> bool \<times> world" where
  "fetch E w =
     (case http_Get E metadata_url w of
        (False, w1) \<Rightarrow> (False, log_Printf LogFetching w1)
      | (True, w1) \<Rightarrow>
          (let (ok, w2) =
                 (if http_status E \<noteq> 200 then (False, log_Printf (LogHttpStatus (http_status E)) w1)
                  else
                    (case io_ReadAll E w1 of
                       (None, w2) \<Rightarrow> (False, log_Printf LogReadError w2)
                     | (Some body, w2) \<Rightarrow>
                         (case yaml_Unmarshal E body of
                            None \<Rightarrow> (False, log_Printf LogParseError w2)
                          | Some metadata \<Rightarrow>
                              if Version (NetworkConfig_of metadata) \<noteq> 1
                              then (False, log_Printf (LogUnknownVersion (Version (NetworkConfig_of metadata))) w2)
                              else writeConfigs E (Config (NetworkConfig_of metadata)) w2)));
               (closed, w3) = syscall E BodyClose w2
           in (ok, w3)))"

subsection \<open>Bringing the interface down again (lines 212-216)\<close>

definition deactivate :: "env \<Rightarrow> LinkAttrs \<Rightarrow> world \<Rightarrow> world" where
  "deactivate E link w =
     (let (deleted, w1) = netlink_AddrDel E link llAddr w;
          (down, w2) = netlink_LinkSetDown E link w1
      in w2)"

subsection \<open>The whole run\<close>

text \<open>The result is the exit status of the process and the world it leaves.\<close>

definition main :: "env \<Rightarrow> world \<Rightarrow> nat \<times> world" where
  "main E w =
     (let (links, w) = list_links E w;
          (haveLink, firstEn) = links_loop links (False, None);
          (firstEn, w) = (if \<not> haveLink then activate E firstEn w else (firstEn, w));
          (ok, w) = fetch E w;
          w = (case (haveLink, firstEn) of
                 (False, Some link) \<Rightarrow> deactivate E link w
               | _ \<Rightarrow> w)
      in (if \<not> ok then 1 else 0, w))"

section \<open>Notions used to state the properties\<close>

subsection \<open>Interfaces\<close>

text \<open>
  The two conditions of the loop over the interfaces (lines 147 and 148), and their
  conjunction: an ethernet-like interface that is up.
\<close>

definition ethernet_like :: "LinkAttrs \<Rightarrow> bool" where
  "ethernet_like link =
     (strings_HasPrefix (LinkName link) ''en'' \<or> strings_HasPrefix (LinkName link) ''eth'')"

definition link_up :: "LinkAttrs \<Rightarrow> bool" where
  "link_up link = (Flags link AND net_FlagUp \<noteq> 0)"

definition has_link :: "LinkAttrs \<Rightarrow> bool" where
  "has_link link = (ethernet_like link \<and> link_up link)"

subsection \<open>Calls and their outcomes\<close>

text \<open>
  \<open>outcomes E n cs\<close> is what the trace holds when the calls \<open>cs\<close> are made in this order
  from call number \<open>n\<close> on; \<open>events w w'\<close> is what a run from \<open>w\<close> to \<open>w'\<close> has added to
  the trace. \<open>is_os\<close> and \<open>is_netlink\<close> tell the calls of the os package and of netlink.
\<close>

fun outcomes :: "env \<Rightarrow> nat \<Rightarrow> call list \<Rightarrow> (call \<times> bool) list" where
  "outcomes E n [] = []"
| "outcomes E n (c # cs) = (c, faults E n = None) # outcomes E (Suc n) cs"

definition events :: "world \<Rightarrow> world \<Rightarrow> (call \<times> bool) list" where
  "events w w' = drop (length (trace w)) (trace w')"

fun is_os :: "call \<Rightarrow> bool" where
  "is_os (OsMkdirAll p) = True"
| "is_os (OsReadDir p) = True"
| "is_os (OsRemove p) = True"
| "is_os (OsWriteFile p c) = True"
| "is_os c = False"

fun is_netlink :: "call \<Rightarrow> bool" where
  "is_netlink NetlinkLinkList = True"
| "is_netlink (NetlinkLinkSetUp n) = True"
| "is_netlink (NetlinkAddrAdd n a) = True"
| "is_netlink (NetlinkAddrDel n a) = True"
| "is_netlink (NetlinkLinkSetDown n) = True"
| "is_netlink c = False"

subsection \<open>The calls of writeConfigs\<close>

text \<open>
  The condition of line 69 and the condition of line 81; the removals made for a list
  of enumerated names; the writes made for a list of entries, their paths, and the
  pairs of path and content they write; the paths of the files of the directory that
  match the naming convention; and the calls of one run of \<open>writeConfigs\<close> that starts at
  call number \<open>n\<close> with the files \<open>fs\<close>. The removals need the list of names, so there is
  none when the enumeration (call number \<open>n + 1\<close>) fails.
\<close>

definition is_config_name :: "string \<Rightarrow> bool" where
  "is_config_name name = (strings_HasPrefix name ConfigPrefix \<and> strings_HasSuffix name ConfigSuffix)"

definition is_physical :: "NetworkConfigEntry \<Rightarrow> bool" where
  "is_physical entry = (Type entry = ''physical'')"

definition remove_calls :: "string list \<Rightarrow> call list" where
  "remove_calls names = map (\<lambda>n. OsRemove (ConfigDir @ ''/'' @ n)) (filter is_config_name names)"

definition write_calls :: "NetworkConfigEntry list \<Rightarrow> call list" where
  "write_calls entries = map (\<lambda>e. OsWriteFile (configPath e) (render_config e)) (filter is_physical entries)"

definition write_paths :: "NetworkConfigEntry list \<Rightarrow> string list" where
  "write_paths entries = map configPath (filter is_physical entries)"

definition rendered :: "NetworkConfigEntry list \<Rightarrow> (string \<times> string) list" where
  "rendered entries = map (\<lambda>e. (configPath e, render_config e)) (filter is_physical entries)"

definition stale_paths :: "(string \<times> string) list \<Rightarrow> string list" where
  "stale_paths fs = map (\<lambda>n. ConfigDir @ ''/'' @ n) (filter is_config_name (dir_entries ConfigDir fs))"

definition sync_calls ::
  "env \<Rightarrow> nat \<Rightarrow> (string \<times> string) list \<Rightarrow> NetworkConfigEntry list \<Rightarrow> call list" where
  "sync_calls E n fs entries =
     [OsMkdirAll ConfigDir, OsReadDir ConfigDir] @
     (if faults E (Suc n) = None then remove_calls (dir_entries ConfigDir fs) else []) @
     write_calls entries"

subsection \<open>The lines of a config\<close>

text \<open>
  A config is read line by line: \<open>text_lines\<close> cuts a text at its line feeds, and the
  DHCP directives of a config are its lines that begin with "DHCP=". A string is
  \<open>single_line\<close> when it has no line feed. \<open>dhcp_v4\<close> and \<open>dhcp_v6\<close> say that some subnet of
  type "dhcp" has its \<open>ipv4\<close> or \<open>ipv6\<close> flag set, and \<open>subnet_text\<close> is the text that one
  subnet adds to the config (lines 104-112).
\<close>

fun text_lines :: "string \<Rightarrow> string list" where
  "text_lines [] = []"
| "text_lines (c # cs) =
     (if c = CHR 0x0A then [] # text_lines cs
      else (case text_lines cs of [] \<Rightarrow> [[c]] | l # ls \<Rightarrow> (c # l) # ls))"

definition dhcp_directives :: "string \<Rightarrow> string list" where
  "dhcp_directives content = filter (\<lambda>l. strings_HasPrefix l ''DHCP='') (text_lines content)"

definition single_line :: "string \<Rightarrow> bool" where
  "single_line s = (CHR 0x0A \<notin> set s)"

definition single_line_subnet :: "Subnet \<Rightarrow> bool" where
  "single_line_subnet s =
     (single_line (Address s) \<and> single_line (Gateway s) \<and> list_all single_line (DNSNameservers s))"

definition single_line_entry :: "NetworkConfigEntry \<Rightarrow> bool" where
  "single_line_entry e = (single_line (MACAddress e) \<and> list_all single_line_subnet (Subnets e))"

definition dhcp_v4 :: "Subnet list \<Rightarrow> bool" where
  "dhcp_v4 ss = list_ex (\<lambda>s. SubnetType s = ''dhcp'' \<and> Ipv4 s) ss"

definition dhcp_v6 :: "Subnet list \<Rightarrow> bool" where
  "dhcp_v6 ss = list_ex (\<lambda>s. SubnetType s = ''dhcp'' \<and> Ipv6 s) ss"

definition subnet_text :: "Subnet \<Rightarrow> string" where
  "subnet_text s =
     (if Address s \<noteq> [] then ''Address='' @ Address s @ ''\<newline>'' else []) @
     (if Gateway s \<noteq> [] then ''Gateway='' @ Gateway s @ ''\<newline>'' else []) @
     concat (map (\<lambda>ns. ''DNS='' @ ns @ ''\<newline>'') (DNSNameservers s))"

subsection \<open>The calls of main\<close>

text \<open>
  For a run of \<open>main\<close> that starts in the world \<open>w\<close>: the interfaces it gets (none when
  the listing, call number \<open>length (trace w)\<close>, fails), the result of the loop over them,
  the calls of the activation from call number \<open>n\<close> on and the interface it leaves in
  \<open>firstEn\<close>, the entries of a body that decodes with version 1, the calls of the fetch
  from call number \<open>n\<close> on and its result, and the calls of the deactivation.
  \<open>before_deactivate\<close> is the run of \<open>main\<close> up to line 210.
\<close>

definition listed :: "env \<Rightarrow> world \<Rightarrow> LinkAttrs list" where
  "listed E w = (if faults E (length (trace w)) = None then links E else [])"

definition probe :: "env \<Rightarrow> world \<Rightarrow> bool \<times> LinkAttrs option" where
  "probe E w = links_loop (listed E w) (False, None)"

definition activate_calls :: "env \<Rightarrow> LinkAttrs option \<Rightarrow> nat \<Rightarrow> call list" where
  "activate_calls E firstEn n =
     (case firstEn of
        None \<Rightarrow> []
      | Some link \<Rightarrow>
          NetlinkLinkSetUp (LinkName link) #
          (if faults E n \<noteq> None then []
           else NetlinkAddrAdd (LinkName link) llAddr #
                (if faults E (Suc n) \<noteq> None then [NetlinkLinkSetDown (LinkName link)] else [])))"

definition activated :: "env \<Rightarrow> LinkAttrs option \<Rightarrow> nat \<Rightarrow> LinkAttrs option" where
  "activated E firstEn n =
     (case firstEn of
        None \<Rightarrow> None
      | Some link \<Rightarrow> if faults E n = None \<and> faults E (Suc n) = None then Some link else None)"

definition activation_calls :: "env \<Rightarrow> world \<Rightarrow> call list" where
  "activation_calls E w =
     (if fst (probe E w) then []
      else activate_calls E (snd (probe E w)) (Suc (length (trace w))))"

definition active_link :: "env \<Rightarrow> world \<Rightarrow> LinkAttrs option" where
  "active_link E w =
     (if fst (probe E w) then None
      else activated E (snd (probe E w)) (Suc (length (trace w))))"

definition deactivate_calls :: "env \<Rightarrow> world \<Rightarrow> call list" where
  "deactivate_calls E w =
     (case active_link E w of
        None \<Rightarrow> []
      | Some link \<Rightarrow> [NetlinkAddrDel (LinkName link) llAddr, NetlinkLinkSetDown (LinkName link)])"

definition decoded :: "env \<Rightarrow> NetworkConfigEntry list option" where
  "decoded E =
     (case yaml_Unmarshal E (http_body E) of
        None \<Rightarrow> None
      | Some metadata \<Rightarrow>
          if Version (NetworkConfig_of metadata) = 1 then Some (Config (NetworkConfig_of metadata))
          else None)"

definition fetch_calls :: "env \<Rightarrow> nat \<Rightarrow> (string \<times> string) list \<Rightarrow> call list" where
  "fetch_calls E n fs =
     HttpGet metadata_url #
     (if faults E n \<noteq> None then []
      else (if http_status E \<noteq> 200 then []
            else IoReadAll #
                 (if faults E (Suc n) \<noteq> None then []
                  else (case decoded E of
                          None \<Rightarrow> []
                        | Some entries \<Rightarrow> sync_calls E (Suc (Suc n)) fs entries))) @
           [BodyClose])"

definition fetch_ok :: "env \<Rightarrow> nat \<Rightarrow> (string \<times> string) list \<Rightarrow> bool" where
  "fetch_ok E n fs =
     (faults E n = None \<and> http_status E = 200 \<and> faults E (Suc n) = None \<and>
      (case decoded E of
         None \<Rightarrow> False
       | Some entries \<Rightarrow> list_all snd (outcomes E (Suc (Suc n)) (sync_calls E (Suc (Suc n)) fs entries))))"

definition fetch_index :: "env \<Rightarrow> world \<Rightarrow> nat" where
  "fetch_index E w = Suc (length (trace w)) + length (activation_calls E w)"

definition main_calls :: "env \<Rightarrow> world \<Rightarrow> call list" where
  "main_calls E w =
     NetlinkLinkList # activation_calls E w @
     fetch_calls E (fetch_index E w) (files w) @ deactivate_calls E w"

definition before_deactivate :: "env \<Rightarrow> world \<Rightarrow> bool \<times> LinkAttrs option \<times> bool \<times> world" where
  "before_deactivate E w =
     (let (links, w) = list_links E w;
          (haveLink, firstEn) = links_loop links (False, None);
          (firstEn, w) = (if \<not> haveLink then activate E firstEn w else (firstEn, w));
          (ok, w) = fetch E w
      in (haveLink, firstEn, ok, w))"

subsection \<open>Example inputs\<close>

text \<open>
  The entry of the scenario of the specification (\<open>ex_eth0\<close>) with the config it renders
  to, further entries, environments in which every call succeeds or some calls fail, and
  worlds with and without files in the directory.
\<close>

definition ex_eth0 :: NetworkConfigEntry where
  "ex_eth0 =
     \<lparr>Name = ''eth0'', Type = ''physical'', MACAddress = ''aa:bb:cc:dd:ee:ff'',
      Subnets = [\<lparr>Ipv4 = True, Ipv6 = False, SubnetType = ''dhcp'', Address = [], Gateway = [],
                   DNSNameservers = []\<rparr>,
                 \<lparr>Ipv4 = True, Ipv6 = False, SubnetType = ''static'', Address = ''10.0.0.5/24'',
                   Gateway = ''10.0.0.1'', DNSNameservers = [''8.8.8.8'']\<rparr>]\<rparr>"

definition ex_config :: string where
  "ex_config =
     ''[Match]\<newline>MACAddress=aa:bb:cc:dd:ee:ff\<newline>\<newline>[Network]\<newline>LinkLocalAddressing=yes\<newline>Address=10.0.0.5/24\<newline>Gateway=10.0.0.1\<newline>DNS=8.8.8.8\<newline>DHCP=ipv4\<newline>''"

definition ex_eth0_again :: NetworkConfigEntry where
  "ex_eth0_again = \<lparr>Name = ''eth0'', Type = ''physical'', MACAddress = ''11:22:33:44:55:66'', Subnets = []\<rparr>"

definition ex_eth1 :: NetworkConfigEntry where
  "ex_eth1 =
     \<lparr>Name = ''eth1'', Type = ''physical'', MACAddress = ''aa:bb:cc:dd:ee:01'',
      Subnets = [\<lparr>Ipv4 = False, Ipv6 = True, SubnetType = ''dhcp'', Address = [], Gateway = [],
                   DNSNameservers = []\<rparr>]\<rparr>"

definition ex_eth2 :: NetworkConfigEntry where
  "ex_eth2 = \<lparr>Name = ''eth2'', Type = ''physical'', MACAddress = ''aa:bb:cc:dd:ee:02'', Subnets = []\<rparr>"

definition ex_lo :: NetworkConfigEntry where
  "ex_lo = \<lparr>Name = ''lo'', Type = ''loopback'', MACAddress = [], Subnets = []\<rparr>"

definition ex_injected :: NetworkConfigEntry where
  "ex_injected =
     \<lparr>Name = ''eth0'', Type = ''physical'', MACAddress = ''aa:bb:cc:dd:ee:ff'',
      Subnets = [\<lparr>Ipv4 = True, Ipv6 = False, SubnetType = ''static'',
                   Address = ''10.0.0.5/24\<newline>DHCP=yes'', Gateway = [], DNSNameservers = []\<rparr>]\<rparr>"

definition ex_injected_mac :: NetworkConfigEntry where
  "ex_injected_mac =
     \<lparr>Name = ''eth0'', Type = ''physical'', MACAddress = ''aa:bb:cc:dd:ee:ff\<newline>DHCP=yes'',
      Subnets = []\<rparr>"

definition ex_injected_gateway :: NetworkConfigEntry where
  "ex_injected_gateway =
     \<lparr>Name = ''eth0'', Type = ''physical'', MACAddress = ''aa:bb:cc:dd:ee:ff'',
      Subnets = [\<lparr>Ipv4 = True, Ipv6 = False, SubnetType = ''dhcp'', Address = [],
                   Gateway = ''10.0.0.1\<newline>DHCP=no'', DNSNameservers = []\<rparr>]\<rparr>"

definition ex_injected_dns :: NetworkConfigEntry where
  "ex_injected_dns =
     \<lparr>Name = ''eth0'', Type = ''physical'', MACAddress = ''aa:bb:cc:dd:ee:ff'',
      Subnets = [\<lparr>Ipv4 = True, Ipv6 = True, SubnetType = ''dhcp'', Address = [],
                   Gateway = [], DNSNameservers = [''8.8.8.8\<newline>DHCP=no'']\<rparr>]\<rparr>"

definition ex_env :: env where
  "ex_env = \<lparr>links = [], http_status = 200, http_body = [], yaml_Unmarshal = (\<lambda>body. None),
              faults = (\<lambda>n. None)\<rparr>"

definition ex_faulty_env :: env where
  "ex_faulty_env = ex_env\<lparr>faults := (\<lambda>n. if n = 0 \<or> n = 3 then Some Untouched else None)\<rparr>"

definition ex_empty_world :: world where
  "ex_empty_world = \<lparr>trace = [], log = [], dirs = [], files = []\<rparr>"

definition ex_world :: world where
  "ex_world = ex_empty_world\<lparr>files :=
     [(''/run/systemd/network/80-hetzner-eth7.network'', ''old''),
      (''/run/systemd/network/10-other.network'', ''keep'')]\<rparr>"

definition ex_world1 :: world where
  "ex_world1 =
     \<lparr>trace = [(OsMkdirAll ''/run/systemd/network'', True),
               (OsReadDir ''/run/systemd/network'', True),
               (OsRemove ''/run/systemd/network/80-hetzner-eth7.network'', True),
               (OsWriteFile ''/run/systemd/network/80-hetzner-eth0.network'' ex_config, True)],
      log = [], dirs = [''/run/systemd/network''],
      files = [(''/run/systemd/network/10-other.network'', ''keep''),
               (''/run/systemd/network/80-hetzner-eth0.network'', ex_config)]\<rparr>"

definition ex_world2 :: world where
  "ex_world2 =
     ex_world1\<lparr>trace := trace ex_world1 @
              [(OsMkdirAll ''/run/systemd/network'', True),
               (OsReadDir ''/run/systemd/network'', True),
               (OsRemove ''/run/systemd/network/80-hetzner-eth0.network'', True),
               (OsWriteFile ''/run/systemd/network/80-hetzner-eth0.network'' ex_config, True)]\<rparr>"

definition ex_links :: "LinkAttrs list" where
  "ex_links = [\<lparr>LinkName = ''lo'', Flags = 37\<rparr>, \<lparr>LinkName = ''eth0'', Flags = 18\<rparr>,
               \<lparr>LinkName = ''eth1'', Flags = 18\<rparr>]"

definition ex_body :: string where
  "ex_body = ''network-config:\<newline>  version: 1\<newline>  config: ...\<newline>''"

definition ex_metadata :: Metadata where
  "ex_metadata = \<lparr>NetworkConfig_of = \<lparr>Version = 1, Config = [ex_eth0, ex_lo]\<rparr>\<rparr>"

definition ex_metadata_v2 :: Metadata where
  "ex_metadata_v2 = \<lparr>NetworkConfig_of = \<lparr>Version = 2, Config = [ex_eth0, ex_lo]\<rparr>\<rparr>"

definition ex_main_env :: env where
  "ex_main_env =
     \<lparr>links = ex_links, http_status = 200, http_body = ex_body,
      yaml_Unmarshal = (\<lambda>body. if body = ex_body then Some ex_metadata else None),
      faults = (\<lambda>n. None)\<rparr>"

definition ex_v2_env :: env where
  "ex_v2_env = ex_main_env\<lparr>yaml_Unmarshal := (\<lambda>body. Some ex_metadata_v2)\<rparr>"

definition ex_deactivate_faults :: "nat \<Rightarrow> fault option" where
  "ex_deactivate_faults n = (if n = 10 \<or> n = 11 then Some Untouched else None)"

definition ex_addr_add_faults :: "nat \<Rightarrow> fault option" where
  "ex_addr_add_faults n = (if n = 2 \<or> n = 4 then Some Untouched else None)"

definition ex_readdir_faults :: "nat \<Rightarrow> fault option" where
  "ex_readdir_faults n = (if n = 1 then Some Untouched else None)"

definition ex_remove_faults :: "nat \<Rightarrow> fault option" where
  "ex_remove_faults n = (if n = 2 then Some Untouched else None)"

definition ex_write_faults :: "nat \<Rightarrow> fault option" where
  "ex_write_faults n = (if n = 2 \<or> n = 4 then Some Untouched else None)"

section \<open>The link prober\<close>

lemma links_loop_Some:
  "links_loop ls (h, Some f) = (h \<or> (\<exists>l\<in>set ls. ethernet_like l \<and> link_up l), Some f)"
  by (induction ls arbitrary: h) (auto simp: ethernet_like_def link_up_def)

lemma links_loop_None:
  "links_loop ls (h, None) =
     (h \<or> (\<exists>l\<in>set ls. ethernet_like l \<and> link_up l),
      case find ethernet_like ls of None \<Rightarrow> None | Some l \<Rightarrow> if link_up l then None else Some l)"
  by (induction ls arbitrary: h) (auto simp: ethernet_like_def link_up_def links_loop_Some)

lemma links_loop_hit:
  "has_link l \<Longrightarrow> links_loop (l # ls) (h, f) = (True, f)"
  by (simp add: has_link_def ethernet_like_def link_up_def)

lemma links_loop_skip:
  "\<not> has_link l \<Longrightarrow>
   links_loop (l # ls) (h, f) =
   links_loop ls (h, if ethernet_like l \<and> f = None then Some l else f)"
  by (auto simp add: has_link_def ethernet_like_def link_up_def)

lemma links_loop_stops:
  "links_loop
     (takeWhile (\<lambda>l. \<not> has_link l) ls @ take 1 (dropWhile (\<lambda>l. \<not> has_link l) ls)) st =
   links_loop ls st"
proof (induction ls arbitrary: st)
  case Nil
  show ?case by simp
next
  case (Cons l ls)
  obtain h f where st: "st = (h, f)" by (cases st)
  show ?case
  proof (cases "has_link l")
    case True
    then show ?thesis by (simp add: st links_loop_hit del: links_loop.simps)
  next
    case False
    then show ?thesis using Cons.IH by (simp add: st links_loop_skip del: links_loop.simps)
  qed
qed

text \<open>
  C3. The scan of the interfaces, in the order of the enumeration, looks only at the
  interfaces whose name begins with "en" or "eth". \<open>haveLink\<close> is true exactly when
  one of them is up, and the interfaces after the first one that is up have no
  influence on the result (the scan stops there). The fallback \<open>firstEn\<close> is the first
  ethernet-like interface of the sequence if that one is not up, and empty otherwise, in
  particular when there is no ethernet-like interface; a fallback that is set is never
  overwritten.
\<close>

theorem links_loop_first_match:
  "links_loop ls (False, None) =
     ((\<exists>l\<in>set ls. ethernet_like l \<and> link_up l),
      (case find ethernet_like ls of
         None \<Rightarrow> None
       | Some l \<Rightarrow> if link_up l then None else Some l))
   \<and> links_loop ls (h, Some f) = (h \<or> (\<exists>l\<in>set ls. ethernet_like l \<and> link_up l), Some f)
   \<and> links_loop
        (takeWhile (\<lambda>l. \<not> has_link l) ls @ take 1 (dropWhile (\<lambda>l. \<not> has_link l) ls)) st =
      links_loop ls st"
  using links_loop_None [of ls False] links_loop_Some [of ls h f] links_loop_stops [of ls st]
  by simp

section \<open>The renderer\<close>

lemma foldl_append_text: "foldl (\<lambda>c x. c @ f x) c xs = c @ concat (map f xs)"
  by (induction xs arbitrary: c) simp_all

lemma subnets_loop_Cons:
  "subnets_loop (s # ss) (v4, v6, c) =
     subnets_loop ss
       (v4 \<or> SubnetType s = ''dhcp'' \<and> Ipv4 s, v6 \<or> SubnetType s = ''dhcp'' \<and> Ipv6 s,
        c @ subnet_text s)"
  by (simp add: Let_def subnet_text_def foldl_append_text)

lemma subnets_loop_eq:
  "subnets_loop ss (v4, v6, c) = (v4 \<or> dhcp_v4 ss, v6 \<or> dhcp_v6 ss, c @ concat (map subnet_text ss))"
proof (induction ss arbitrary: v4 v6 c)
  case Nil
  show ?case by (simp add: dhcp_v4_def dhcp_v6_def)
next
  case (Cons s ss)
  show ?case
    by (simp add: subnets_loop_Cons Cons.IH dhcp_v4_def dhcp_v6_def del: subnets_loop.simps)
qed

lemma text_lines_line:
  "single_line l \<Longrightarrow> text_lines (l @ CHR 0x0A # rest) = l # text_lines rest"
  by (induction l) (auto simp add: single_line_def)

lemma dhcp_directives_line:
  "single_line l \<Longrightarrow>
   dhcp_directives (l @ CHR 0x0A # rest) =
     (if strings_HasPrefix l ''DHCP='' then l # dhcp_directives rest else dhcp_directives rest)"
  by (simp add: dhcp_directives_def text_lines_line)

lemma dhcp_directives_dns:
  "list_all single_line xs \<Longrightarrow>
   dhcp_directives (concat (map (\<lambda>ns. ''DNS='' @ ns @ ''\<newline>'') xs) @ rest) = dhcp_directives rest"
proof (induction xs)
  case Nil
  show ?case by simp
next
  case (Cons x xs)
  then have "single_line (''DNS='' @ x)"
    by (simp add: single_line_def)
  from dhcp_directives_line [OF this] Cons show ?case
    by (simp add: strings_HasPrefix_def)
qed

lemma dhcp_directives_subnet:
  assumes "single_line_subnet s"
  shows "dhcp_directives (subnet_text s @ rest) = dhcp_directives rest"
proof -
  from assms have a: "single_line (''Address='' @ Address s)" and g: "single_line (''Gateway='' @ Gateway s)"
    and d: "list_all single_line (DNSNameservers s)"
    by (simp_all add: single_line_subnet_def single_line_def)
  show ?thesis
    using dhcp_directives_line [OF a] dhcp_directives_line [OF g] dhcp_directives_dns [OF d]
    by (simp add: subnet_text_def strings_HasPrefix_def)
qed

lemma dhcp_directives_subnets:
  "list_all single_line_subnet ss \<Longrightarrow>
   dhcp_directives (concat (map subnet_text ss) @ rest) = dhcp_directives rest"
  by (induction ss) (simp_all add: dhcp_directives_subnet)

lemma render_config_eq:
  "render_config e =
     ''[Match]\<newline>'' @ (''MACAddress='' @ MACAddress e) @ ''\<newline>'' @ ''\<newline>'' @ ''[Network]\<newline>'' @
     ''LinkLocalAddressing=yes\<newline>'' @ concat (map subnet_text (Subnets e)) @
     (if dhcp_v4 (Subnets e) then (if dhcp_v6 (Subnets e) then ''DHCP=yes\<newline>'' else ''DHCP=ipv4\<newline>'')
      else if dhcp_v6 (Subnets e) then ''DHCP=ipv6\<newline>'' else [])"
  by (simp add: render_config_def subnets_loop_eq del: subnets_loop.simps)

lemma render_config_example: "render_config ex_eth0 = ex_config"
  by code_simp

text \<open>
  C2 as stated fails for an entry with a line feed in a field. The address of the
  static subnet of the first entry below carries a second line, so the rendered config
  of this physical entry has a "DHCP=yes" line although no subnet is of type "dhcp" and
  neither flag is set. The same happens through the MAC address. With a second line in
  a gateway or in a name server, the config of an entry with a flag set has two DHCP
  lines.
\<close>

theorem render_config_dhcp_counterexample:
  "is_physical ex_injected \<and> \<not> dhcp_v4 (Subnets ex_injected) \<and> \<not> dhcp_v6 (Subnets ex_injected)
   \<and> dhcp_directives (render_config ex_injected) = [''DHCP=yes'']
   \<and> is_physical ex_injected_mac \<and> \<not> dhcp_v4 (Subnets ex_injected_mac) \<and> \<not> dhcp_v6 (Subnets ex_injected_mac)
   \<and> dhcp_directives (render_config ex_injected_mac) = [''DHCP=yes'']
   \<and> is_physical ex_injected_gateway \<and> dhcp_v4 (Subnets ex_injected_gateway)
   \<and> \<not> dhcp_v6 (Subnets ex_injected_gateway)
   \<and> dhcp_directives (render_config ex_injected_gateway) = [''DHCP=no'', ''DHCP=ipv4'']
   \<and> is_physical ex_injected_dns \<and> dhcp_v4 (Subnets ex_injected_dns) \<and> dhcp_v6 (Subnets ex_injected_dns)
   \<and> dhcp_directives (render_config ex_injected_dns) = [''DHCP=no'', ''DHCP=yes'']"
  by code_simp

text \<open>
  C2, amended. The loop over the subnets ORs the \<open>ipv4\<close> and \<open>ipv6\<close> flags of the subnets
  of type "dhcp" into the two want-flags, which therefore stay set once they are set. For
  every entry whose MAC address and whose subnet addresses, gateways and name servers
  contain no line feed, the lines of the rendered config that begin with "DHCP=" are:
  the one line "DHCP=yes" when both flags are set, "DHCP=ipv4" when only the v4 flag is,
  "DHCP=ipv6" when only the v6 flag is, and no line when neither is.
\<close>

theorem render_config_dhcp:
  "subnets_loop ss (v4, v6, c) = (v4 \<or> dhcp_v4 ss, v6 \<or> dhcp_v6 ss, c @ concat (map subnet_text ss))
   \<and> (single_line_entry e \<longrightarrow>
        dhcp_directives (render_config e) =
          (if dhcp_v4 (Subnets e) \<and> dhcp_v6 (Subnets e) then [''DHCP=yes'']
           else if dhcp_v4 (Subnets e) then [''DHCP=ipv4'']
           else if dhcp_v6 (Subnets e) then [''DHCP=ipv6'']
           else []))"
proof -
  have "dhcp_directives (render_config e) =
          (if dhcp_v4 (Subnets e) \<and> dhcp_v6 (Subnets e) then [''DHCP=yes'']
           else if dhcp_v4 (Subnets e) then [''DHCP=ipv4'']
           else if dhcp_v6 (Subnets e) then [''DHCP=ipv6'']
           else [])" if sl: "single_line_entry e"
  proof -
    from sl have mac: "single_line (''MACAddress='' @ MACAddress e)"
      and subs: "list_all single_line_subnet (Subnets e)"
      by (simp_all add: single_line_entry_def single_line_def)
    have tail: "dhcp_directives
        (if dhcp_v4 (Subnets e) then (if dhcp_v6 (Subnets e) then ''DHCP=yes\<newline>'' else ''DHCP=ipv4\<newline>'')
         else if dhcp_v6 (Subnets e) then ''DHCP=ipv6\<newline>'' else []) =
          (if dhcp_v4 (Subnets e) \<and> dhcp_v6 (Subnets e) then [''DHCP=yes'']
           else if dhcp_v4 (Subnets e) then [''DHCP=ipv4'']
           else if dhcp_v6 (Subnets e) then [''DHCP=ipv6'']
           else [])"
      by (simp add: dhcp_directives_def strings_HasPrefix_def)
    have head: "dhcp_directives (''[Match]\<newline>'' @ (''MACAddress='' @ MACAddress e) @ ''\<newline>'' @ ''\<newline>'' @ ''[Network]\<newline>'' @
        ''LinkLocalAddressing=yes\<newline>'' @ rest) = dhcp_directives rest" for rest
      using dhcp_directives_line [of "''[Match]''"] dhcp_directives_line [OF mac] dhcp_directives_line [of "[]"]
        dhcp_directives_line [of "''[Network]''"] dhcp_directives_line [of "''LinkLocalAddressing=yes''"]
      by (simp add: single_line_def strings_HasPrefix_def)
    show ?thesis
      unfolding render_config_eq head dhcp_directives_subnets [OF subs] tail ..
  qed
  then show ?thesis
    by (simp add: subnets_loop_eq del: subnets_loop.simps)
qed

theorem render_config_dhcp_witness:
  "single_line_entry ex_eth0 \<and> dhcp_v4 (Subnets ex_eth0) \<and> \<not> dhcp_v6 (Subnets ex_eth0)
   \<and> dhcp_directives (render_config ex_eth0) = [''DHCP=ipv4'']"
proof -
  have h1: "single_line_entry ex_eth0" by code_simp
  have h2: "dhcp_v4 (Subnets ex_eth0)" by code_simp
  have h3: "\<not> dhcp_v6 (Subnets ex_eth0)" by code_simp
  from render_config_dhcp [of "[]" False False "[]" ex_eth0] h1 h2 h3 show ?thesis
    by simp
qed

section \<open>The directory synchronizer\<close>

subsection \<open>Calls, trace and result\<close>

lemma outcomes_append: "outcomes E n (xs @ ys) = outcomes E n xs @ outcomes E (n + length xs) ys"
  by (induction xs arbitrary: n) auto

lemma length_outcomes [simp]: "length (outcomes E n cs) = length cs"
  by (induction cs arbitrary: n) auto

lemma map_fst_outcomes [simp]: "map fst (outcomes E n cs) = cs"
  by (induction cs arbitrary: n) auto

lemma outcomes_mem_fst: "(c, b) \<in> set (outcomes E n cs) \<Longrightarrow> c \<in> set cs"
  by (induction cs arbitrary: n) auto

lemma outcomes_all_ok:
  "list_all snd (outcomes E n cs) \<Longrightarrow> ((c, True) \<in> set (outcomes E n cs)) = (c \<in> set cs)"
  by (induction cs arbitrary: n) auto

lemma syscall_fst [simp]: "fst (syscall E c w) = faults E (length (trace w))"
  by (simp add: syscall_def)

lemma syscall_trace [simp]: "trace (snd (syscall E c w)) = trace w @ [(c, faults E (length (trace w)) = None)]"
  by (simp add: syscall_def)

lemma syscall_rest [simp]:
  "files (snd (syscall E c w)) = files w" "log (snd (syscall E c w)) = log w"
  "dirs (snd (syscall E c w)) = dirs w"
  by (simp_all add: syscall_def)

lemma log_Printf_simps [simp]:
  "trace (log_Printf l w) = trace w" "files (log_Printf l w) = files w"
  "dirs (log_Printf l w) = dirs w" "log (log_Printf l w) = log w @ [l]"
  by (simp_all add: log_Printf_def)

lemma os_WriteFile_fst [simp]: "fst (os_WriteFile E p c w) = (faults E (length (trace w)) = None)"
  by (cases "syscall E (OsWriteFile p c) w") (auto simp: os_WriteFile_def syscall_def split: option.splits fault.splits)

lemma os_WriteFile_trace [simp]:
  "trace (snd (os_WriteFile E p c w)) = trace w @ [(OsWriteFile p c, faults E (length (trace w)) = None)]"
  by (cases "syscall E (OsWriteFile p c) w") (auto simp: os_WriteFile_def syscall_def split: option.splits fault.splits)

lemma os_WriteFile_files:
  "files (snd (os_WriteFile E p c w)) =
     (case faults E (length (trace w)) of
        None \<Rightarrow> AList.update p c (files w)
      | Some Untouched \<Rightarrow> files w
      | Some (Partial n) \<Rightarrow> AList.update p (take n c) (files w))"
  by (cases "syscall E (OsWriteFile p c) w") (auto simp: os_WriteFile_def syscall_def split: option.splits fault.splits)

lemma os_WriteFile_rest [simp]:
  "log (snd (os_WriteFile E p c w)) = log w" "dirs (snd (os_WriteFile E p c w)) = dirs w"
  by (cases "syscall E (OsWriteFile p c) w"; auto simp: os_WriteFile_def syscall_def split: option.splits fault.splits)+

lemma os_WriteFile_keeps:
  "p \<in> dom (map_of (files w)) \<Longrightarrow> p \<in> dom (map_of (files (snd (os_WriteFile E q c w))))"
  by (auto simp add: os_WriteFile_files update_conv' split: option.splits fault.splits)

lemma os_Remove_simps [simp]:
  "fst (os_Remove E p w) = (faults E (length (trace w)) = None)"
  "trace (snd (os_Remove E p w)) = trace w @ [(OsRemove p, faults E (length (trace w)) = None)]"
  "log (snd (os_Remove E p w)) = log w" "dirs (snd (os_Remove E p w)) = dirs w"
  by (auto simp: os_Remove_def syscall_def split: option.splits)

lemma os_Remove_files:
  "files (snd (os_Remove E p w)) =
     (if faults E (length (trace w)) = None then AList.delete p (files w) else files w)"
  by (auto simp: os_Remove_def syscall_def split: option.splits)

lemma os_MkdirAll_simps [simp]:
  "fst (os_MkdirAll E p w) = (faults E (length (trace w)) = None)"
  "trace (snd (os_MkdirAll E p w)) = trace w @ [(OsMkdirAll p, faults E (length (trace w)) = None)]"
  "log (snd (os_MkdirAll E p w)) = log w" "files (snd (os_MkdirAll E p w)) = files w"
  by (auto simp: os_MkdirAll_def syscall_def split: option.splits)

lemma os_MkdirAll_dirs:
  "dirs (snd (os_MkdirAll E p w)) =
     (if faults E (length (trace w)) = None then List.insert p (dirs w) else dirs w)"
  by (auto simp: os_MkdirAll_def syscall_def split: option.splits)

lemma os_ReadDir_simps [simp]:
  "fst (os_ReadDir E p w) =
     (if faults E (length (trace w)) = None then Some (dir_entries p (files w)) else None)"
  "trace (snd (os_ReadDir E p w)) = trace w @ [(OsReadDir p, faults E (length (trace w)) = None)]"
  "log (snd (os_ReadDir E p w)) = log w" "files (snd (os_ReadDir E p w)) = files w"
  "dirs (snd (os_ReadDir E p w)) = dirs w"
  by (auto simp: os_ReadDir_def syscall_def split: option.splits)

lemma write_loop_Cons:
  "write_loop E (e # rest) ok w =
     (if \<not> is_physical e then write_loop E rest ok w
      else if fst (os_WriteFile E (configPath e) (render_config e) w)
           then write_loop E rest ok (snd (os_WriteFile E (configPath e) (render_config e) w))
           else write_loop E rest False
                  (log_Printf (LogWriting (configPath e)) (snd (os_WriteFile E (configPath e) (render_config e) w))))"
  by (cases "os_WriteFile E (configPath e) (render_config e) w") (simp add: is_physical_def)

declare write_loop.simps(2) [simp del]

lemma write_calls_simps [simp]:
  "write_calls [] = []"
  "write_calls (e # es) = (if is_physical e then OsWriteFile (configPath e) (render_config e) # write_calls es else write_calls es)"
  by (simp_all add: write_calls_def)

lemma write_loop_trace:
  "trace (snd (write_loop E es ok w)) = trace w @ outcomes E (length (trace w)) (write_calls es)"
proof (induction es arbitrary: ok w)
  case Nil
  show ?case by simp
next
  case (Cons e es)
  show ?case by (simp add: write_loop_Cons Cons.IH del: write_loop.simps(2))
qed

lemma write_loop_fst:
  "fst (write_loop E es ok w) = (ok \<and> list_all snd (outcomes E (length (trace w)) (write_calls es)))"
proof (induction es arbitrary: ok w)
  case Nil
  show ?case by simp
next
  case (Cons e es)
  show ?case by (auto simp add: write_loop_Cons Cons.IH simp del: write_loop.simps(2))
qed

lemma write_loop_append:
  "write_loop E (xs @ ys) ok w =
     write_loop E ys (fst (write_loop E xs ok w)) (snd (write_loop E xs ok w))"
  by (induction xs arbitrary: ok w) (simp_all add: write_loop_Cons)

lemma write_loop_dirs [simp]: "dirs (snd (write_loop E es ok w)) = dirs w"
  by (induction es arbitrary: ok w) (simp_all add: write_loop_Cons)

lemma remove_loop_Cons:
  "remove_loop E (name # rest) ok w =
     (if \<not> is_config_name name then remove_loop E rest ok w
      else if fst (os_Remove E (ConfigDir @ ''/'' @ name) w)
           then remove_loop E rest ok (snd (os_Remove E (ConfigDir @ ''/'' @ name) w))
           else remove_loop E rest False
                  (log_Printf (LogRemoving (ConfigDir @ ''/'' @ name))
                     (snd (os_Remove E (ConfigDir @ ''/'' @ name) w))))"
  by (cases "os_Remove E (ConfigDir @ ''/'' @ name) w") (simp add: is_config_name_def)

declare remove_loop.simps(2) [simp del]

lemma remove_calls_simps [simp]:
  "remove_calls [] = []"
  "remove_calls (n # ns) =
     (if is_config_name n then OsRemove (ConfigDir @ ''/'' @ n) # remove_calls ns else remove_calls ns)"
  by (simp_all add: remove_calls_def)

lemma remove_loop_trace:
  "trace (snd (remove_loop E ns ok w)) = trace w @ outcomes E (length (trace w)) (remove_calls ns)"
  by (induction ns arbitrary: ok w) (simp_all add: remove_loop_Cons)

lemma remove_loop_fst:
  "fst (remove_loop E ns ok w) = (ok \<and> list_all snd (outcomes E (length (trace w)) (remove_calls ns)))"
  by (induction ns arbitrary: ok w) (auto simp add: remove_loop_Cons)

lemma remove_loop_dirs [simp]: "dirs (snd (remove_loop E ns ok w)) = dirs w"
  by (induction ns arbitrary: ok w) (simp_all add: remove_loop_Cons)

lemma cleanup_eq:
  "cleanup E ok w =
     (if faults E (length (trace w)) = None
      then remove_loop E (dir_entries ConfigDir (files w)) ok (snd (os_ReadDir E ConfigDir w))
      else (False, log_Printf (LogReadingDirectory ConfigDir) (snd (os_ReadDir E ConfigDir w))))"
  by (cases "os_ReadDir E ConfigDir w")
     (auto simp: cleanup_def os_ReadDir_def syscall_def split: option.splits)

lemma writeConfigs_eq:
  "writeConfigs E es w =
     write_loop E es
       (fst (cleanup E (fst (os_MkdirAll E ConfigDir w))
          (if fst (os_MkdirAll E ConfigDir w) then snd (os_MkdirAll E ConfigDir w)
           else log_Printf (LogCreating ConfigDir) (snd (os_MkdirAll E ConfigDir w)))))
       (snd (cleanup E (fst (os_MkdirAll E ConfigDir w))
          (if fst (os_MkdirAll E ConfigDir w) then snd (os_MkdirAll E ConfigDir w)
           else log_Printf (LogCreating ConfigDir) (snd (os_MkdirAll E ConfigDir w)))))"
  by (cases "os_MkdirAll E ConfigDir w")
     (auto simp: writeConfigs_def split: prod.splits bool.splits)

lemma cleanup_trace:
  "trace (snd (cleanup E ok w)) =
     trace w @ outcomes E (length (trace w))
       (OsReadDir ConfigDir #
        (if faults E (length (trace w)) = None then remove_calls (dir_entries ConfigDir (files w)) else []))"
  by (simp add: cleanup_eq remove_loop_trace)

lemma cleanup_fst:
  "fst (cleanup E ok w) =
     (ok \<and> list_all snd (outcomes E (length (trace w))
       (OsReadDir ConfigDir #
        (if faults E (length (trace w)) = None then remove_calls (dir_entries ConfigDir (files w)) else []))))"
  by (simp add: cleanup_eq remove_loop_fst)

lemma cleanup_dirs [simp]: "dirs (snd (cleanup E ok w)) = dirs w"
  by (simp add: cleanup_eq)

lemma writeConfigs_trace:
  "trace (snd (writeConfigs E es w)) = trace w @ outcomes E (length (trace w)) (sync_calls E (length (trace w)) (files w) es)"
  by (simp add: writeConfigs_eq write_loop_trace cleanup_trace sync_calls_def outcomes_append)

lemma writeConfigs_fst:
  "fst (writeConfigs E es w) = list_all snd (outcomes E (length (trace w)) (sync_calls E (length (trace w)) (files w) es))"
  by (auto simp add: writeConfigs_eq write_loop_fst write_loop_trace cleanup_trace cleanup_fst sync_calls_def outcomes_append)

lemma writeConfigs_events:
  "events w (snd (writeConfigs E es w)) =
     outcomes E (length (trace w)) (sync_calls E (length (trace w)) (files w) es)"
  by (simp add: events_def writeConfigs_trace)

lemma writeConfigs_dirs:
  "dirs (snd (writeConfigs E es w)) =
     (if faults E (length (trace w)) = None then List.insert ConfigDir (dirs w) else dirs w)"
  by (simp add: writeConfigs_eq os_MkdirAll_dirs)

subsection \<open>Files\<close>

lemma write_loop_frame:
  "p \<notin> set (write_paths es) \<Longrightarrow> map_of (files (snd (write_loop E es ok w))) p = map_of (files w) p"
  by (induction es arbitrary: ok w)
     (auto simp: write_loop_Cons write_paths_def os_WriteFile_files update_conv' split: option.splits fault.splits)

lemma write_loop_keeps:
  "p \<in> dom (map_of (files w)) \<Longrightarrow> p \<in> dom (map_of (files (snd (write_loop E es ok w))))"
proof (induction es arbitrary: ok w)
  case Nil
  then show ?case by simp
next
  case (Cons e es)
  note step = os_WriteFile_keeps [OF Cons.prems, of E "configPath e" "render_config e"]
  show ?case
    using Cons.prems step by (auto simp add: write_loop_Cons intro!: Cons.IH)
qed

lemma write_loop_ok_files:
  "fst (write_loop E es ok w) \<Longrightarrow>
   map_of (files (snd (write_loop E es ok w))) = map_of (files w) ++ map_of (rev (rendered es))"
proof (induction es arbitrary: ok w)
  case Nil
  then show ?case by (simp add: rendered_def)
next
  case (Cons e es)
  show ?case
  proof (cases "is_physical e")
    case False
    then show ?thesis using Cons by (simp add: write_loop_Cons rendered_def)
  next
    case True
    let ?w1 = "snd (os_WriteFile E (configPath e) (render_config e) w)"
    from Cons.prems True have ok1: "faults E (length (trace w)) = None"
      by (simp add: write_loop_fst)
    with Cons.prems True have "fst (write_loop E es ok ?w1)"
      by (simp add: write_loop_Cons)
    from Cons.IH [OF this]
    have "map_of (files (snd (write_loop E es ok ?w1))) = map_of (files ?w1) ++ map_of (rev (rendered es))" .
    moreover have "map_of (files ?w1) = (map_of (files w))(configPath e \<mapsto> render_config e)"
      using ok1 by (simp add: os_WriteFile_files update_conv')
    ultimately show ?thesis using True ok1
      by (simp add: write_loop_Cons rendered_def map_add_upd_left)
  qed
qed

lemma write_loop_written:
  assumes "is_physical e" and "faults E (length (trace w) + length (write_calls pre)) = None"
  shows "configPath e \<in> dom (map_of (files (snd (write_loop E (pre @ e # post) ok w))))"
    and "configPath e \<notin> set (write_paths post) \<Longrightarrow>
         map_of (files (snd (write_loop E (pre @ e # post) ok w))) (configPath e) = Some (render_config e)"
proof -
  let ?w1 = "snd (write_loop E pre ok w)"
  let ?w2 = "snd (os_WriteFile E (configPath e) (render_config e) ?w1)"
  have len: "length (trace ?w1) = length (trace w) + length (write_calls pre)"
    by (simp add: write_loop_trace)
  have ok: "faults E (length (trace ?w1)) = None"
    using assms(2) by (simp add: len)
  have run: "write_loop E (pre @ e # post) ok w = write_loop E post (fst (write_loop E pre ok w)) ?w2"
    using assms(1) ok by (simp add: write_loop_append write_loop_Cons)
  have here: "map_of (files ?w2) (configPath e) = Some (render_config e)"
    using ok by (simp add: os_WriteFile_files update_conv')
  then have "configPath e \<in> dom (map_of (files ?w2))"
    by blast
  then show "configPath e \<in> dom (map_of (files (snd (write_loop E (pre @ e # post) ok w))))"
    unfolding run by (rule write_loop_keeps)
  show "map_of (files (snd (write_loop E (pre @ e # post) ok w))) (configPath e) = Some (render_config e)"
    if "configPath e \<notin> set (write_paths post)"
    unfolding run using that here by (simp add: write_loop_frame)
qed

lemma remove_loop_files:
  "map_of (files (snd (remove_loop E ns ok w))) p =
     (if (OsRemove p, True) \<in> set (outcomes E (length (trace w)) (remove_calls ns))
      then None else map_of (files w) p)"
proof (induction ns arbitrary: ok w p)
  case Nil
  show ?case by simp
next
  case (Cons n ns)
  show ?case
    by (simp add: remove_loop_Cons Cons.IH os_Remove_files delete_conv')
qed

lemma cleanup_files:
  "map_of (files (snd (cleanup E ok w))) p =
     (if faults E (length (trace w)) = None \<and>
         (OsRemove p, True) \<in> set (outcomes E (Suc (length (trace w))) (remove_calls (dir_entries ConfigDir (files w))))
      then None else map_of (files w) p)"
  by (simp add: cleanup_eq remove_loop_files)

lemma writeConfigs_written:
  assumes "is_physical e" and "faults E (length (trace w) + length (sync_calls E (length (trace w)) (files w) pre)) = None"
  shows "configPath e \<in> dom (map_of (files (snd (writeConfigs E (pre @ e # post) w))))"
    and "configPath e \<notin> set (write_paths post) \<Longrightarrow>
         map_of (files (snd (writeConfigs E (pre @ e # post) w))) (configPath e) = Some (render_config e)"
proof -
  define ok1 where "ok1 = fst (os_MkdirAll E ConfigDir w)"
  define w1 where "w1 = (if ok1 then snd (os_MkdirAll E ConfigDir w)
           else log_Printf (LogCreating ConfigDir) (snd (os_MkdirAll E ConfigDir w)))"
  define w2 where "w2 = snd (cleanup E ok1 w1)"
  have run: "writeConfigs E es w = write_loop E es (fst (cleanup E ok1 w1)) w2" for es
    by (simp add: writeConfigs_eq ok1_def w1_def w2_def)
  have "trace w1 = trace w @ outcomes E (length (trace w)) [OsMkdirAll ConfigDir]" "files w1 = files w"
    by (simp_all add: w1_def)
  then have "length (trace w2) + length (write_calls pre) = length (trace w) + length (sync_calls E (length (trace w)) (files w) pre)"
    by (simp add: w2_def cleanup_trace sync_calls_def)
  with assms(2) have ok: "faults E (length (trace w2) + length (write_calls pre)) = None"
    by simp
  show "configPath e \<in> dom (map_of (files (snd (writeConfigs E (pre @ e # post) w))))"
    unfolding run by (rule write_loop_written(1) [OF assms(1) ok])
  show "map_of (files (snd (writeConfigs E (pre @ e # post) w))) (configPath e) = Some (render_config e)"
    if "configPath e \<notin> set (write_paths post)"
    unfolding run by (rule write_loop_written(2) [OF assms(1) ok that])
qed

lemma writeConfigs_unwritten:
  "p \<notin> set (write_paths es) \<Longrightarrow>
   map_of (files (snd (writeConfigs E es w))) p =
     (if (OsRemove p, True) \<in> set (outcomes E (length (trace w)) (sync_calls E (length (trace w)) (files w) es))
      then None else map_of (files w) p)"
proof -
  assume p: "p \<notin> set (write_paths es)"
  have "OsRemove p \<notin> set (write_calls es)"
    by (auto simp: write_calls_def)
  then have "(OsRemove p, True) \<notin> set (outcomes E n (write_calls es))" for n
    by (metis map_fst_outcomes in_set_zipE zip_map_fst_snd)
  then show ?thesis using p
    by (auto simp add: writeConfigs_eq write_loop_frame cleanup_files sync_calls_def outcomes_append)
qed

lemma entry_name_path: "entry_name dir p = Some n \<Longrightarrow> p = dir @ ''/'' @ n"
proof -
  assume "entry_name dir p = Some n"
  then have "take (length dir + 1) p = dir @ ''/''" and "n = drop (length dir + 1) p"
    by (simp_all add: entry_name_def Let_def split: if_splits)
  then have "dir @ ''/'' @ n = take (length dir + 1) p @ drop (length dir + 1) p"
    by simp
  then show ?thesis
    by (simp only: append_take_drop_id)
qed

lemma set_map_filter_eq: "set (List.map_filter f xs) = {y. \<exists>x\<in>set xs. f x = Some y}"
  by (induction xs) (auto split: option.splits)

lemma set_dir_entries:
  "set (dir_entries dir fs) = {n. \<exists>p \<in> dom (map_of fs). entry_name dir p = Some n}"
  by (simp add: dir_entries_def set_map_filter_eq dom_map_of_conv_image_fst)

lemma dir_entries_canonical:
  "dir_entries dir fs = sorted_list_of_set {n. \<exists>p \<in> dom (map_of fs). entry_name dir p = Some n}"
proof -
  have "dir_entries dir fs = sorted_list_of_set (set (List.map_filter (entry_name dir) (map fst fs)))"
    by (simp add: dir_entries_def sorted_list_of_set_sort_remdups)
  then show ?thesis
    by (simp add: set_map_filter_eq dom_map_of_conv_image_fst)
qed

lemma stale_paths_iff:
  "p \<in> set (stale_paths fs) \<longleftrightarrow>
     p \<in> dom (map_of fs) \<and> (\<exists>n. entry_name ConfigDir p = Some n \<and> is_config_name n)"
proof
  assume "p \<in> set (stale_paths fs)"
  then obtain n q where n: "p = ConfigDir @ ''/'' @ n" "is_config_name n"
    and q: "q \<in> dom (map_of fs)" "entry_name ConfigDir q = Some n"
    by (auto simp: stale_paths_def set_dir_entries)
  from q(2) have "q = p" unfolding n(1) by (rule entry_name_path)
  with n q show "p \<in> dom (map_of fs) \<and> (\<exists>n. entry_name ConfigDir p = Some n \<and> is_config_name n)"
    by blast
next
  assume "p \<in> dom (map_of fs) \<and> (\<exists>n. entry_name ConfigDir p = Some n \<and> is_config_name n)"
  then obtain n where p: "p \<in> dom (map_of fs)" and n: "entry_name ConfigDir p = Some n" "is_config_name n"
    by blast
  from n(1) have "p = ConfigDir @ ''/'' @ n" by (rule entry_name_path)
  moreover from p n have "n \<in> set (filter is_config_name (dir_entries ConfigDir fs))"
    by (auto simp: set_dir_entries)
  ultimately show "p \<in> set (stale_paths fs)"
    unfolding stale_paths_def by (simp only: set_map image_eqI)
qed

lemma rendered_dom: "dom (map_of (rev (rendered es))) = set (write_paths es)"
  by (simp add: dom_map_of_conv_image_fst rendered_def write_paths_def image_image)

lemma writeConfigs_ok_files:
  assumes "fst (writeConfigs E es w)"
  shows "map_of (files (snd (writeConfigs E es w))) =
           (map_of (files w) |` (- set (stale_paths (files w)))) ++ map_of (rev (rendered es))"
proof -
  define ok1 where "ok1 = fst (os_MkdirAll E ConfigDir w)"
  define w1 where "w1 = (if ok1 then snd (os_MkdirAll E ConfigDir w)
           else log_Printf (LogCreating ConfigDir) (snd (os_MkdirAll E ConfigDir w)))"
  define w2 where "w2 = snd (cleanup E ok1 w1)"
  have run: "writeConfigs E es w = write_loop E es (fst (cleanup E ok1 w1)) w2"
    by (simp add: writeConfigs_eq ok1_def w1_def w2_def)
  have w1: "trace w1 = trace w @ [(OsMkdirAll ConfigDir, faults E (length (trace w)) = None)]" "files w1 = files w"
    by (simp_all add: w1_def)
  from assms have c: "fst (cleanup E ok1 w1)" and wl: "fst (write_loop E es (fst (cleanup E ok1 w1)) w2)"
    by (simp_all add: run write_loop_fst)
  from c have rd: "faults E (length (trace w1)) = None"
    and rm: "list_all snd (outcomes E (Suc (length (trace w1))) (remove_calls (dir_entries ConfigDir (files w))))"
    by (simp_all add: cleanup_fst w1 split: if_splits)
  have "map_of (files w2) p = (map_of (files w) |` (- set (stale_paths (files w)))) p" for p
    using rd outcomes_all_ok [OF rm, of "OsRemove p"]
    by (auto simp add: w2_def cleanup_files w1(2) restrict_map_def stale_paths_def remove_calls_def)
  then have "map_of (files w2) = map_of (files w) |` (- set (stale_paths (files w)))"
    by (rule ext)
  with write_loop_ok_files [OF wl] show ?thesis
    by (simp add: run)
qed

lemma writeConfigs_ok_dom:
  assumes "fst (writeConfigs E es w)"
  shows "dom (map_of (files (snd (writeConfigs E es w)))) =
           (dom (map_of (files w)) - set (stale_paths (files w))) \<union> set (write_paths es)"
  unfolding writeConfigs_ok_files [OF assms] dom_map_add dom_restrict rendered_dom by blast

lemma configPath_inj: "(configPath e = configPath e') = (Name e = Name e')"
  by (simp add: configPath_def)

lemma write_paths_names:
  "set (write_paths entries) =
     (\<lambda>n. ConfigDir @ ''/'' @ ConfigPrefix @ n @ ConfigSuffix) ` Name ` set (filter is_physical entries)"
  by (auto simp add: write_paths_def configPath_def image_image)

lemma card_write_paths:
  "card (set (write_paths entries)) = card (Name ` set (filter is_physical entries))"
proof -
  have "inj_on (\<lambda>n. ConfigDir @ ''/'' @ ConfigPrefix @ n @ ConfigSuffix) (Name ` set (filter is_physical entries))"
    by (rule inj_onI) simp
  then show ?thesis
    unfolding write_paths_names by (rule card_image)
qed

subsection \<open>Failures do not stop the run\<close>

text \<open>
  C6. A run of \<open>writeConfigs\<close> makes the calls \<open>sync_calls\<close> in this order, whatever fails:
  the creation of the directory, its enumeration, one removal for each enumerated name
  that matches the naming convention (none when the enumeration failed, since there is
  no list of names then), and one write for each physical entry. The result is true
  exactly when every one of these calls succeeded; in particular it is false when the
  creation of the directory failed. The file of an entry whose write succeeded is
  present after the run, and it holds the rendered config of that entry unless a later
  entry is written to the same path.
\<close>

theorem writeConfigs_best_effort:
  "trace (snd (writeConfigs E entries w)) =
     trace w @ outcomes E (length (trace w)) (sync_calls E (length (trace w)) (files w) entries)
   \<and> fst (writeConfigs E entries w) =
       list_all snd (outcomes E (length (trace w)) (sync_calls E (length (trace w)) (files w) entries))
   \<and> (faults E (length (trace w)) \<noteq> None \<longrightarrow> \<not> fst (writeConfigs E entries w))
   \<and> (entries = pre @ e # post \<and> is_physical e \<and>
        faults E (length (trace w) + length (sync_calls E (length (trace w)) (files w) pre)) = None \<longrightarrow>
        configPath e \<in> dom (map_of (files (snd (writeConfigs E entries w)))) \<and>
        (configPath e \<notin> set (write_paths post) \<longrightarrow>
         map_of (files (snd (writeConfigs E entries w))) (configPath e) = Some (render_config e)))"
  using writeConfigs_written [of e E w pre post]
  by (simp add: writeConfigs_trace writeConfigs_fst sync_calls_def)

theorem writeConfigs_best_effort_witness:
  "[ex_eth0, ex_eth1, ex_eth2] = [] @ ex_eth0 # [ex_eth1, ex_eth2]
   \<and> is_physical ex_eth0
   \<and> faults ex_faulty_env (length (trace ex_empty_world)) \<noteq> None
   \<and> faults ex_faulty_env (length (trace ex_empty_world) + length (sync_calls ex_faulty_env (length (trace ex_empty_world)) (files ex_empty_world) [])) = None
   \<and> configPath ex_eth0 \<notin> set (write_paths [ex_eth1, ex_eth2])
   \<and> \<not> fst (writeConfigs ex_faulty_env [ex_eth0, ex_eth1, ex_eth2] ex_empty_world)
   \<and> map_of (files (snd (writeConfigs ex_faulty_env [ex_eth0, ex_eth1, ex_eth2] ex_empty_world)))
         (configPath ex_eth0) = Some (render_config ex_eth0)"
proof -
  have h1: "is_physical ex_eth0" by code_simp
  have h2: "faults ex_faulty_env (length (trace ex_empty_world)) \<noteq> None" by code_simp
  have h3: "faults ex_faulty_env (length (trace ex_empty_world) + length (sync_calls ex_faulty_env (length (trace ex_empty_world)) (files ex_empty_world) [])) = None"
    by code_simp
  have h4: "configPath ex_eth0 \<notin> set (write_paths [ex_eth1, ex_eth2])" by code_simp
  have h0: "[ex_eth0, ex_eth1, ex_eth2] = [] @ ex_eth0 # [ex_eth1, ex_eth2]" by simp
  from writeConfigs_best_effort [of ex_faulty_env "[ex_eth0, ex_eth1, ex_eth2]" ex_empty_world "[]" ex_eth0 "[ex_eth1, ex_eth2]"]
    h0 h1 h2 h3 h4
  show ?thesis by blast
qed

lemma partial_run_example:
  "writeConfigs ex_faulty_env [ex_eth0, ex_eth1, ex_eth2] ex_empty_world =
     (False,
      \<lparr>trace = [(OsMkdirAll ConfigDir, False), (OsReadDir ConfigDir, True),
                (OsWriteFile (configPath ex_eth0) (render_config ex_eth0), True),
                (OsWriteFile (configPath ex_eth1) (render_config ex_eth1), False),
                (OsWriteFile (configPath ex_eth2) (render_config ex_eth2), True)],
       log = [LogCreating ConfigDir, LogWriting (configPath ex_eth1)],
       dirs = [],
       files = [(configPath ex_eth0, render_config ex_eth0), (configPath ex_eth2, render_config ex_eth2)]\<rparr>)"
  by code_simp

subsection \<open>Two runs in a row\<close>

text \<open>
  C7. When two runs of \<open>writeConfigs\<close> with the same entries follow each other and every
  call of both succeeds, the second run leaves the files as the first run left them:
  the same paths with the same contents, the same listing of the directory (which has
  no name twice) and the same directories. Every file of the directory that matches
  the naming convention is the file of a physical entry of the input, and every such
  entry has its file.
\<close>

theorem writeConfigs_idempotent:
  assumes "writeConfigs E entries w = (True, w1)" and "writeConfigs E entries w1 = (True, w2)"
  shows "map_of (files w2) = map_of (files w1)
       \<and> dir_entries ConfigDir (files w2) = dir_entries ConfigDir (files w1)
       \<and> dirs w2 = dirs w1
       \<and> distinct (dir_entries ConfigDir (files w2))
       \<and> set (stale_paths (files w2)) \<subseteq> set (write_paths entries)
       \<and> set (write_paths entries) \<subseteq> dom (map_of (files w2))"
proof -
  let ?W = "map_of (rev (rendered entries))"
  from assms have ok1: "fst (writeConfigs E entries w)" and w1: "w1 = snd (writeConfigs E entries w)"
    and ok2: "fst (writeConfigs E entries w1)" and w2: "w2 = snd (writeConfigs E entries w1)"
    by simp_all
  have m1: "map_of (files w1) = (map_of (files w) |` (- set (stale_paths (files w)))) ++ ?W"
    unfolding w1 by (rule writeConfigs_ok_files [OF ok1])
  have m2: "map_of (files w2) = (map_of (files w1) |` (- set (stale_paths (files w1)))) ++ ?W"
    unfolding w2 by (rule writeConfigs_ok_files [OF ok2])
  have stale1: "p \<in> dom ?W" if "p \<in> set (stale_paths (files w1))" for p
  proof (rule ccontr)
    assume nW: "p \<notin> dom ?W"
    from that have p1: "p \<in> dom (map_of (files w1))"
      and named: "\<exists>n. entry_name ConfigDir p = Some n \<and> is_config_name n"
      by (simp_all add: stale_paths_iff)
    from p1 nW have "p \<in> dom (map_of (files w) |` (- set (stale_paths (files w))))"
      unfolding m1 dom_map_add by blast
    then have "p \<in> dom (map_of (files w))" and "p \<notin> set (stale_paths (files w))"
      unfolding dom_restrict by blast+
    with named show False
      by (simp add: stale_paths_iff)
  qed
  have eq: "map_of (files w2) = map_of (files w1)"
  proof (rule ext)
    fix p
    show "map_of (files w2) p = map_of (files w1) p"
    proof (cases "p \<in> dom ?W")
      case True
      then show ?thesis unfolding m1 m2 by (auto simp: map_add_def split: option.splits)
    next
      case False
      with stale1 have "p \<notin> set (stale_paths (files w1))" by blast
      with False show ?thesis unfolding m2 by (auto simp add: map_add_def restrict_map_def split: option.splits)
    qed
  qed
  have "ConfigDir \<in> set (dirs w1)"
    using ok1 unfolding w1 by (simp add: writeConfigs_dirs writeConfigs_fst sync_calls_def)
  then have d: "dirs w2 = dirs w1"
    using ok2 unfolding w2 by (simp add: writeConfigs_dirs writeConfigs_fst sync_calls_def)
  have st: "set (stale_paths (files w2)) \<subseteq> set (write_paths entries)"
    using stale1 by (auto simp add: stale_paths_iff eq rendered_dom)
  have "dom ?W \<subseteq> dom (map_of (files w2))"
    unfolding m2 by auto
  then have wr: "set (write_paths entries) \<subseteq> dom (map_of (files w2))"
    by (simp add: rendered_dom)
  show ?thesis
    using eq d st wr by (simp add: dir_entries_canonical)
qed

theorem writeConfigs_idempotent_witness:
  "writeConfigs ex_env [ex_eth0, ex_lo] ex_world = (True, ex_world1)
   \<and> writeConfigs ex_env [ex_eth0, ex_lo] ex_world1 = (True, ex_world2)
   \<and> map_of (files ex_world2) = map_of (files ex_world1)
   \<and> dir_entries ConfigDir (files ex_world2) = [''10-other.network'', ''80-hetzner-eth0.network'']"
proof -
  have run1: "writeConfigs ex_env [ex_eth0, ex_lo] ex_world = (True, ex_world1)"
    by code_simp
  have run2: "writeConfigs ex_env [ex_eth0, ex_lo] ex_world1 = (True, ex_world2)"
    by code_simp
  have listing: "dir_entries ConfigDir (files ex_world2) = [''10-other.network'', ''80-hetzner-eth0.network'']"
    by code_simp
  from writeConfigs_idempotent [OF run1 run2] run1 run2 listing show ?thesis
    by simp
qed

subsection \<open>Old configs are removed\<close>

text \<open>
  C8 as stated fails when the enumeration of the directory or a removal fails. In the
  first run below the enumeration fails: the run makes no removal at all, and the old
  config of an interface that is no longer present stays in the directory. In the
  second run the removal fails, and the file stays as well.
\<close>

theorem writeConfigs_removes_stale_counterexample:
  "''80-hetzner-eth7.network'' \<in> set (dir_entries ConfigDir (files ex_world))
   \<and> is_config_name ''80-hetzner-eth7.network''
   \<and> events ex_world (snd (writeConfigs (ex_env\<lparr>faults := ex_readdir_faults\<rparr>) [ex_lo] ex_world)) =
        [(OsMkdirAll ConfigDir, True), (OsReadDir ConfigDir, False)]
   \<and> map_of (files (snd (writeConfigs (ex_env\<lparr>faults := ex_readdir_faults\<rparr>) [ex_lo] ex_world)))
        (ConfigDir @ ''/'' @ ''80-hetzner-eth7.network'') = Some ''old''
   \<and> events ex_world (snd (writeConfigs (ex_env\<lparr>faults := ex_remove_faults\<rparr>) [ex_lo] ex_world)) =
        [(OsMkdirAll ConfigDir, True), (OsReadDir ConfigDir, True),
         (OsRemove (ConfigDir @ ''/'' @ ''80-hetzner-eth7.network''), False)]
   \<and> map_of (files (snd (writeConfigs (ex_env\<lparr>faults := ex_remove_faults\<rparr>) [ex_lo] ex_world)))
        (ConfigDir @ ''/'' @ ''80-hetzner-eth7.network'') = Some ''old''"
  by code_simp

text \<open>
  C8, amended. When the enumeration of the directory succeeds, a removal is attempted
  for every enumerated name that starts with "80-hetzner-" and ends with ".network",
  whatever the entries of the run are. When that removal succeeds and no entry of the
  run is written to the path, the file is absent after the run. When the run writes no
  file at all and every call succeeds, no file that matches the naming convention is
  left in the directory.
\<close>

theorem writeConfigs_removes_stale:
  assumes "faults E (Suc (length (trace w))) = None"
    and "name \<in> set (dir_entries ConfigDir (files w))"
    and "is_config_name name"
  shows "OsRemove (ConfigDir @ ''/'' @ name) \<in>
           set (map fst (events w (snd (writeConfigs E entries w))))
       \<and> ((OsRemove (ConfigDir @ ''/'' @ name), True) \<in>
              set (events w (snd (writeConfigs E entries w))) \<and>
            ConfigDir @ ''/'' @ name \<notin> set (write_paths entries) \<longrightarrow>
            map_of (files (snd (writeConfigs E entries w))) (ConfigDir @ ''/'' @ name) = None)
       \<and> (fst (writeConfigs E entries w) \<and> write_paths entries = [] \<longrightarrow>
            stale_paths (files (snd (writeConfigs E entries w))) = [])"
proof -
  let ?p = "ConfigDir @ ''/'' @ name"
  let ?w' = "snd (writeConfigs E entries w)"
  have "OsRemove ?p \<in> set (sync_calls E (length (trace w)) (files w) entries)"
    using assms by (simp add: sync_calls_def remove_calls_def)
  then have a: "OsRemove ?p \<in> set (map fst (events w ?w'))"
    by (simp only: writeConfigs_events map_fst_outcomes)
  have b: "map_of (files ?w') ?p = None"
    if "(OsRemove ?p, True) \<in> set (events w ?w')"
      and "?p \<notin> set (write_paths entries)"
    using that writeConfigs_unwritten [of ?p entries E w] by (simp add: writeConfigs_events)
  have c: "stale_paths (files ?w') = []" if ok: "fst (writeConfigs E entries w)" and none: "write_paths entries = []"
  proof -
    have "rendered entries = []"
      using none by (simp add: write_paths_def rendered_def)
    then have m: "map_of (files ?w') = map_of (files w) |` (- set (stale_paths (files w)))"
      using writeConfigs_ok_files [OF ok] by simp
    have "p \<notin> set (stale_paths (files ?w'))" for p
    proof
      assume "p \<in> set (stale_paths (files ?w'))"
      then have "p \<in> dom (map_of (files ?w'))"
        and named: "\<exists>n. entry_name ConfigDir p = Some n \<and> is_config_name n"
        by (simp_all add: stale_paths_iff)
      then have "p \<in> dom (map_of (files w))" and "p \<notin> set (stale_paths (files w))"
        unfolding m dom_restrict by blast+
      with named show False
        by (simp add: stale_paths_iff)
    qed
    then show ?thesis
      by (cases "stale_paths (files ?w')") auto
  qed
  from a b c show ?thesis by blast
qed

theorem writeConfigs_removes_stale_witness:
  "faults ex_env (Suc (length (trace ex_world))) = None
   \<and> ''80-hetzner-eth7.network'' \<in> set (dir_entries ConfigDir (files ex_world))
   \<and> is_config_name ''80-hetzner-eth7.network''
   \<and> ConfigDir @ ''/'' @ ''80-hetzner-eth7.network'' \<notin> set (write_paths [ex_eth0, ex_lo])
   \<and> OsRemove (ConfigDir @ ''/'' @ ''80-hetzner-eth7.network'') \<in>
        set (map fst (events ex_world (snd (writeConfigs ex_env [ex_eth0, ex_lo] ex_world))))
   \<and> map_of (files (snd (writeConfigs ex_env [ex_eth0, ex_lo] ex_world)))
         (ConfigDir @ ''/'' @ ''80-hetzner-eth7.network'') = None
   \<and> fst (writeConfigs ex_env [ex_lo] ex_world)
   \<and> write_paths [ex_lo] = []
   \<and> stale_paths (files (snd (writeConfigs ex_env [ex_lo] ex_world))) = []"
proof -
  have h1: "faults ex_env (Suc (length (trace ex_world))) = None" by code_simp
  have h2: "''80-hetzner-eth7.network'' \<in> set (dir_entries ConfigDir (files ex_world))" by code_simp
  have h3: "is_config_name ''80-hetzner-eth7.network''" by code_simp
  have h4: "ConfigDir @ ''/'' @ ''80-hetzner-eth7.network'' \<notin> set (write_paths [ex_eth0, ex_lo])" by code_simp
  have h5: "(OsRemove (ConfigDir @ ''/'' @ ''80-hetzner-eth7.network''), True) \<in>
      set (events ex_world (snd (writeConfigs ex_env [ex_eth0, ex_lo] ex_world)))"
    by code_simp
  have h6: "fst (writeConfigs ex_env [ex_lo] ex_world)" by code_simp
  have h7: "write_paths [ex_lo] = []" by code_simp
  from writeConfigs_removes_stale [OF h1 h2 h3, where entries = "[ex_eth0, ex_lo]"]
    writeConfigs_removes_stale [OF h1 h2 h3, where entries = "[ex_lo]"] h1 h2 h3 h4 h5 h6 h7
  show ?thesis by blast
qed

subsection \<open>Entries with the same name\<close>

text \<open>
  C10 as stated fails when a write fails. In the run below the first entry has a name
  of its own and the other two have the same name; the write of the first and the write
  of the last fail. The file of the two entries with the same name holds the config of
  the first of them, not of the last, and the three entries with two distinct names
  leave one file.
\<close>

theorem writeConfigs_last_write_wins_counterexample:
  "is_physical ex_eth1 \<and> is_physical ex_eth0 \<and> is_physical ex_eth0_again
   \<and> Name ex_eth0 = Name ex_eth0_again
   \<and> events ex_empty_world
        (snd (writeConfigs (ex_env\<lparr>faults := ex_write_faults\<rparr>) [ex_eth1, ex_eth0, ex_eth0_again] ex_empty_world)) =
        [(OsMkdirAll ConfigDir, True), (OsReadDir ConfigDir, True),
         (OsWriteFile (configPath ex_eth1) (render_config ex_eth1), False),
         (OsWriteFile (configPath ex_eth0) (render_config ex_eth0), True),
         (OsWriteFile (configPath ex_eth0_again) (render_config ex_eth0_again), False)]
   \<and> files (snd (writeConfigs (ex_env\<lparr>faults := ex_write_faults\<rparr>) [ex_eth1, ex_eth0, ex_eth0_again] ex_empty_world)) =
        [(configPath ex_eth0_again, render_config ex_eth0)]
   \<and> render_config ex_eth0 \<noteq> render_config ex_eth0_again
   \<and> card (Name ` set [ex_eth1, ex_eth0, ex_eth0_again]) = 2"
  by code_simp

text \<open>
  C10, amended. Two entries have the same destination path exactly when they have the
  same name. The writes of a run are those of the physical entries, in the order of the
  entries, whatever fails. When the write of an entry succeeds and no later physical
  entry has the same name, the file at its path holds the rendered config of that
  entry. The paths written by a run are as many as the distinct names of the physical
  entries, and after a run in which every call succeeded the files are the old files
  without those removed by the cleanup, together with these paths.
\<close>

theorem writeConfigs_last_write_wins:
  "(configPath e = configPath e') = (Name e = Name e')
   \<and> drop (length (sync_calls E (length (trace w)) (files w) [])) (map fst (events w (snd (writeConfigs E entries w)))) =
       map (\<lambda>e. OsWriteFile (configPath e) (render_config e)) (filter is_physical entries)
   \<and> (entries = pre @ e # post \<and> is_physical e \<and>
        Name e \<notin> Name ` set (filter is_physical post) \<and>
        faults E (length (trace w) + length (sync_calls E (length (trace w)) (files w) pre)) = None \<longrightarrow>
        map_of (files (snd (writeConfigs E entries w))) (configPath e) = Some (render_config e))
   \<and> card (set (write_paths entries)) = card (Name ` set (filter is_physical entries))
   \<and> (fst (writeConfigs E entries w) \<longrightarrow>
        dom (map_of (files (snd (writeConfigs E entries w)))) =
          (dom (map_of (files w)) - set (stale_paths (files w))) \<union> set (write_paths entries))"
proof -
  have "configPath e \<notin> set (write_paths post)" if "Name e \<notin> Name ` set (filter is_physical post)"
    using that by (auto simp add: write_paths_def configPath_inj)
  then show ?thesis
    using writeConfigs_written(2) [of e E w pre post] writeConfigs_ok_dom [of E entries w]
    by (auto simp add: configPath_inj writeConfigs_events card_write_paths sync_calls_def write_calls_def)
qed

theorem writeConfigs_last_write_wins_witness:
  "[ex_eth0, ex_eth0_again] = [ex_eth0] @ ex_eth0_again # []
   \<and> is_physical ex_eth0_again
   \<and> Name ex_eth0_again \<notin> Name ` set (filter is_physical [])
   \<and> faults ex_env (length (trace ex_empty_world) + length (sync_calls ex_env (length (trace ex_empty_world)) (files ex_empty_world) [ex_eth0])) = None
   \<and> fst (writeConfigs ex_env [ex_eth0, ex_eth0_again] ex_empty_world)
   \<and> configPath ex_eth0 = configPath ex_eth0_again
   \<and> map_of (files (snd (writeConfigs ex_env [ex_eth0, ex_eth0_again] ex_empty_world)))
        (configPath ex_eth0_again) = Some (render_config ex_eth0_again)
   \<and> dom (map_of (files (snd (writeConfigs ex_env [ex_eth0, ex_eth0_again] ex_empty_world)))) =
        (dom (map_of (files ex_empty_world)) - set (stale_paths (files ex_empty_world))) \<union>
        set (write_paths [ex_eth0, ex_eth0_again])"
proof -
  have h1: "is_physical ex_eth0_again" by code_simp
  have h2: "Name ex_eth0_again \<notin> Name ` set (filter is_physical [])" by simp
  have h3: "faults ex_env (length (trace ex_empty_world) + length (sync_calls ex_env (length (trace ex_empty_world)) (files ex_empty_world) [ex_eth0])) = None"
    by code_simp
  have h4: "fst (writeConfigs ex_env [ex_eth0, ex_eth0_again] ex_empty_world)" by code_simp
  have h5: "Name ex_eth0 = Name ex_eth0_again" by code_simp
  have h0: "[ex_eth0, ex_eth0_again] = [ex_eth0] @ ex_eth0_again # []" by simp
  from writeConfigs_last_write_wins [where e = ex_eth0_again and e' = ex_eth0 and E = ex_env
      and w = ex_empty_world and entries = "[ex_eth0, ex_eth0_again]" and pre = "[ex_eth0]" and post = "[]"]
    h0 h1 h2 h3 h4 h5
  show ?thesis by metis
qed

section \<open>The whole run\<close>

subsection \<open>Calls, trace and exit status\<close>

lemmas netlink_defs =
  netlink_LinkSetUp_def netlink_LinkSetDown_def netlink_AddrAdd_def netlink_AddrDel_def syscall_def

lemma activate_fst: "fst (activate E fe w) = activated E fe (length (trace w))"
  by (cases fe) (auto simp add: activate_def activated_def netlink_defs log_Printf_def Let_def split: bool.splits)

lemma activate_trace:
  "trace (snd (activate E fe w)) =
     trace w @ outcomes E (length (trace w)) (activate_calls E fe (length (trace w)))"
  by (cases fe) (auto simp add: activate_def activate_calls_def netlink_defs log_Printf_def Let_def split: bool.splits)

lemma activate_files [simp]:
  "files (snd (activate E fe w)) = files w" "dirs (snd (activate E fe w)) = dirs w"
  by (cases fe; auto simp add: activate_def netlink_defs log_Printf_def Let_def split: bool.splits)+

lemmas fetch_defs = fetch_def http_Get_def io_ReadAll_def syscall_def decoded_def log_Printf_def

lemma fetch_fst: "fst (fetch E w) = fetch_ok E (length (trace w)) (files w)"
  by (auto simp add: fetch_defs fetch_ok_def Let_def split_beta writeConfigs_fst
      split: bool.splits option.splits)

lemma fetch_trace:
  "trace (snd (fetch E w)) =
     trace w @ outcomes E (length (trace w)) (fetch_calls E (length (trace w)) (files w))"
  by (auto simp add: fetch_defs fetch_calls_def Let_def split_beta writeConfigs_trace outcomes_append
      split: bool.splits option.splits)

lemma fetch_untouched:
  "decoded E = None \<Longrightarrow> files (snd (fetch E w)) = files w \<and> dirs (snd (fetch E w)) = dirs w"
  by (auto simp add: fetch_defs Let_def split_beta split: bool.splits option.splits if_splits)

lemma deactivate_trace:
  "trace (deactivate E l w) =
     trace w @ outcomes E (length (trace w)) [NetlinkAddrDel (LinkName l) llAddr, NetlinkLinkSetDown (LinkName l)]"
  by (simp add: deactivate_def netlink_defs)

lemma deactivate_rest [simp]:
  "files (deactivate E l w) = files w" "dirs (deactivate E l w) = dirs w" "log (deactivate E l w) = log w"
  by (simp_all add: deactivate_def netlink_defs)

lemma main_eq:
  "main E w =
     (case before_deactivate E w of
        (haveLink, firstEn, ok, w3) \<Rightarrow>
          (if \<not> ok then 1 else 0,
           case (haveLink, firstEn) of (False, Some link) \<Rightarrow> deactivate E link w3 | _ \<Rightarrow> w3))"
  by (auto simp add: main_def before_deactivate_def Let_def split_beta split: option.splits bool.splits)

lemma list_links_eq:
  "list_links E w =
     (listed E w,
      (if faults E (length (trace w)) = None then (\<lambda>w. w) else log_Printf LogListingInterfaces)
        (w\<lparr>trace := trace w @ [(NetlinkLinkList, faults E (length (trace w)) = None)]\<rparr>))"
  by (auto simp add: list_links_def netlink_LinkList_def syscall_def listed_def split: option.splits)

lemma list_links_rest [simp]:
  "files (snd (list_links E w)) = files w" "dirs (snd (list_links E w)) = dirs w"
  by (simp_all add: list_links_eq log_Printf_def)

lemma before_deactivate_parts:
  "fst (before_deactivate E w) = fst (probe E w)"
  "\<not> fst (probe E w) \<Longrightarrow> fst (snd (before_deactivate E w)) = active_link E w"
  "fst (snd (snd (before_deactivate E w))) = fetch_ok E (fetch_index E w) (files w)"
  "trace (snd (snd (snd (before_deactivate E w)))) =
     trace w @ outcomes E (length (trace w))
       (NetlinkLinkList # activation_calls E w @ fetch_calls E (fetch_index E w) (files w))"
  by (auto simp add: before_deactivate_def list_links_eq Let_def split_beta probe_def active_link_def
      activation_calls_def fetch_index_def activate_fst activate_trace fetch_fst fetch_trace outcomes_append)

lemma before_deactivate_untouched:
  "decoded E = None \<Longrightarrow>
   files (snd (snd (snd (before_deactivate E w)))) = files w \<and>
   dirs (snd (snd (snd (before_deactivate E w)))) = dirs w"
  by (simp add: before_deactivate_def Let_def split_beta fetch_untouched)

lemma main_fst: "fst (main E w) = (if fetch_ok E (fetch_index E w) (files w) then 0 else 1)"
  by (simp add: main_eq split_beta before_deactivate_parts)

lemma main_trace:
  "trace (snd (main E w)) = trace w @ outcomes E (length (trace w)) (main_calls E w)"
proof (cases "fst (probe E w)")
  case True
  then show ?thesis
    by (simp add: main_eq split_beta before_deactivate_parts main_calls_def deactivate_calls_def
        active_link_def)
next
  case False
  then show ?thesis
    by (cases "active_link E w")
       (simp_all add: main_eq split_beta before_deactivate_parts main_calls_def deactivate_calls_def
        deactivate_trace outcomes_append fetch_index_def add.assoc)
qed

lemma main_untouched:
  "decoded E = None \<Longrightarrow> files (snd (main E w)) = files w \<and> dirs (snd (main E w)) = dirs w"
  by (auto simp add: main_eq split_beta before_deactivate_untouched split: option.splits bool.splits)

lemma outcomes_filter_all:
  "list_all P cs \<Longrightarrow> filter (\<lambda>x. P (fst x)) (outcomes E n cs) = outcomes E n cs"
  by (induction cs arbitrary: n) auto

lemma outcomes_filter_netlink:
  "list_all is_netlink cs \<Longrightarrow> filter (\<lambda>x. \<not> is_netlink (fst x)) (outcomes E n cs) = []"
  by (induction cs arbitrary: n) auto

lemma sync_calls_os: "list_all is_os (sync_calls E n fs es)"
  by (auto simp add: sync_calls_def remove_calls_def write_calls_def list_all_iff)

lemma activation_calls_netlink: "list_all is_netlink (activation_calls E w)"
  by (simp add: activation_calls_def activate_calls_def split: option.splits)

lemma deactivate_calls_netlink: "list_all is_netlink (deactivate_calls E w)"
  by (simp add: deactivate_calls_def split: option.splits)

lemma is_os_not_netlink: "is_os c \<Longrightarrow> \<not> is_netlink c"
  by (cases c) simp_all

lemma fetch_calls_not_netlink: "list_all (\<lambda>c. \<not> is_netlink c) (fetch_calls E n fs)"
  using sync_calls_os [of E "Suc (Suc n)" fs]
  by (auto simp add: fetch_calls_def list_all_iff is_os_not_netlink split: option.splits)

lemma main_events_fetch:
  "filter (\<lambda>x. \<not> is_netlink (fst x)) (events w (snd (main E w))) =
     outcomes E (fetch_index E w) (fetch_calls E (fetch_index E w) (files w))"
  using outcomes_filter_netlink [OF activation_calls_netlink]
    outcomes_filter_netlink [OF deactivate_calls_netlink]
    outcomes_filter_all [OF fetch_calls_not_netlink]
  by (simp add: events_def main_trace main_calls_def outcomes_append fetch_index_def)

lemma main_events_readall:
  "((HttpGet metadata_url, True) \<in> set (events w (snd (main E w)))) =
     (faults E (fetch_index E w) = None)"
  "((IoReadAll, True) \<in> set (events w (snd (main E w)))) =
     (faults E (fetch_index E w) = None \<and> http_status E = 200 \<and> faults E (Suc (fetch_index E w)) = None)"
proof -
  let ?ev = "events w (snd (main E w))"
  let ?k = "fetch_index E w"
  have os: "(c, b) \<in> set (outcomes E n (sync_calls E n' fs es)) \<Longrightarrow> is_os c" for c b n n' fs es
    using sync_calls_os [of E n' fs es] by (auto simp add: list_all_iff dest: outcomes_mem_fst)
  have "((HttpGet metadata_url, True) \<in> set ?ev) =
        ((HttpGet metadata_url, True) \<in> set (filter (\<lambda>x. \<not> is_netlink (fst x)) ?ev))"
    by simp
  also have "\<dots> = (faults E ?k = None)"
    unfolding main_events_fetch
    by (auto simp add: fetch_calls_def outcomes_append split: option.splits dest: os)
  finally show "((HttpGet metadata_url, True) \<in> set ?ev) = (faults E ?k = None)" .
  have "((IoReadAll, True) \<in> set ?ev) =
        ((IoReadAll, True) \<in> set (filter (\<lambda>x. \<not> is_netlink (fst x)) ?ev))"
    by simp
  also have "\<dots> = (faults E ?k = None \<and> http_status E = 200 \<and> faults E (Suc ?k) = None)"
    unfolding main_events_fetch
    by (auto simp add: fetch_calls_def outcomes_append split: option.splits dest: os)
  finally show "((IoReadAll, True) \<in> set ?ev) =
     (faults E ?k = None \<and> http_status E = 200 \<and> faults E (Suc ?k) = None)" .
qed

lemma main_events_os:
  "filter (\<lambda>x. is_os (fst x)) (events w (snd (main E w))) =
     (if faults E (fetch_index E w) = None \<and> http_status E = 200 \<and> faults E (Suc (fetch_index E w)) = None
      then (case decoded E of
              None \<Rightarrow> []
            | Some es \<Rightarrow> outcomes E (Suc (Suc (fetch_index E w)))
                           (sync_calls E (Suc (Suc (fetch_index E w))) (files w) es))
      else [])"
proof -
  let ?ev = "events w (snd (main E w))"
  have "filter (\<lambda>x. is_os (fst x)) ?ev =
        filter (\<lambda>x. is_os (fst x)) (filter (\<lambda>x. \<not> is_netlink (fst x)) ?ev)"
    by (auto simp add: is_os_not_netlink intro: filter_cong)
  then show ?thesis
    unfolding main_events_fetch
    by (simp add: fetch_calls_def outcomes_append outcomes_filter_all [OF sync_calls_os] split: option.splits)
qed

text \<open>
  C1. The exit status of a run is 0 when the GET of the metadata succeeded, the HTTP
  status is 200, the body was read, the decoder accepted the body with version 1, and
  every call of the os package made by the run succeeded; it is 1 in every other case.
  When the first four hold, the os calls of the run are those of \<open>writeConfigs\<close> for
  the decoded entries: the creation of the directory, its enumeration, the removals and
  the writes.
\<close>

theorem main_exit_status:
  "fst (main E w) =
     (if (HttpGet metadata_url, True) \<in> set (events w (snd (main E w)))
         \<and> http_status E = 200
         \<and> (IoReadAll, True) \<in> set (events w (snd (main E w)))
         \<and> (\<exists>m. yaml_Unmarshal E (http_body E) = Some m \<and> Version (NetworkConfig_of m) = 1)
         \<and> list_all snd (filter (\<lambda>x. is_os (fst x)) (events w (snd (main E w))))
      then 0 else 1)
   \<and> ((HttpGet metadata_url, True) \<in> set (events w (snd (main E w)))
        \<and> http_status E = 200
        \<and> (IoReadAll, True) \<in> set (events w (snd (main E w)))
        \<and> yaml_Unmarshal E (http_body E) = Some m \<and> Version (NetworkConfig_of m) = 1 \<longrightarrow>
        map fst (filter (\<lambda>x. is_os (fst x)) (events w (snd (main E w)))) =
          sync_calls E (Suc (Suc (fetch_index E w))) (files w) (Config (NetworkConfig_of m)))"
proof -
  have d: "(\<exists>m. yaml_Unmarshal E (http_body E) = Some m \<and> Version (NetworkConfig_of m) = 1) =
           (decoded E \<noteq> None)"
    by (auto simp add: decoded_def split: option.splits)
  have d': "decoded E = Some (Config (NetworkConfig_of m))"
    if "yaml_Unmarshal E (http_body E) = Some m" "Version (NetworkConfig_of m) = 1"
    using that by (simp add: decoded_def)
  show ?thesis
    unfolding d main_events_readall main_events_os main_fst
    by (auto simp add: fetch_ok_def d' split: option.splits)
qed

theorem main_exit_status_witness:
  "(HttpGet metadata_url, True) \<in> set (events ex_world (snd (main ex_main_env ex_world)))
   \<and> http_status ex_main_env = 200
   \<and> (IoReadAll, True) \<in> set (events ex_world (snd (main ex_main_env ex_world)))
   \<and> yaml_Unmarshal ex_main_env (http_body ex_main_env) = Some ex_metadata
   \<and> Version (NetworkConfig_of ex_metadata) = 1
   \<and> list_all snd (filter (\<lambda>x. is_os (fst x)) (events ex_world (snd (main ex_main_env ex_world))))
   \<and> fst (main ex_main_env ex_world) = 0
   \<and> map fst (filter (\<lambda>x. is_os (fst x)) (events ex_world (snd (main ex_main_env ex_world)))) =
        sync_calls ex_main_env (Suc (Suc (fetch_index ex_main_env ex_world))) (files ex_world)
          (Config (NetworkConfig_of ex_metadata))"
proof -
  have h1: "(HttpGet metadata_url, True) \<in> set (events ex_world (snd (main ex_main_env ex_world)))"
    by code_simp
  have h2: "http_status ex_main_env = 200" by code_simp
  have h3: "(IoReadAll, True) \<in> set (events ex_world (snd (main ex_main_env ex_world)))"
    by code_simp
  have h4: "yaml_Unmarshal ex_main_env (http_body ex_main_env) = Some ex_metadata" by code_simp
  have h5: "Version (NetworkConfig_of ex_metadata) = 1" by code_simp
  have h6: "list_all snd (filter (\<lambda>x. is_os (fst x)) (events ex_world (snd (main ex_main_env ex_world))))"
    by code_simp
  from h4 h5 have h7: "\<exists>m. yaml_Unmarshal ex_main_env (http_body ex_main_env) = Some m \<and> Version (NetworkConfig_of m) = 1"
    by blast
  from main_exit_status [of ex_main_env ex_world ex_metadata] h1 h2 h3 h4 h5 h6 h7
  show ?thesis by simp
qed

text \<open>
  C5. When the decoder yields metadata whose version is not 1, the run exits with
  status 1, makes no call of the os package, and leaves the files and the directories
  as they were.
\<close>

theorem main_rejects_version:
  assumes "yaml_Unmarshal E (http_body E) = Some m" and "Version (NetworkConfig_of m) \<noteq> 1"
  shows "fst (main E w) = 1
       \<and> filter (\<lambda>x. is_os (fst x)) (events w (snd (main E w))) = []
       \<and> files (snd (main E w)) = files w
       \<and> dirs (snd (main E w)) = dirs w"
proof -
  from assms have d: "decoded E = None"
    by (simp add: decoded_def)
  then show ?thesis
    by (simp add: main_fst fetch_ok_def main_events_os main_untouched)
qed

theorem main_rejects_version_witness:
  "yaml_Unmarshal ex_v2_env (http_body ex_v2_env) = Some ex_metadata_v2
   \<and> Version (NetworkConfig_of ex_metadata_v2) \<noteq> 1
   \<and> fst (main ex_v2_env ex_world) = 1
   \<and> filter (\<lambda>x. is_os (fst x)) (events ex_world (snd (main ex_v2_env ex_world))) = []
   \<and> files (snd (main ex_v2_env ex_world)) = files ex_world
   \<and> dirs (snd (main ex_v2_env ex_world)) = dirs ex_world"
proof -
  have h1: "yaml_Unmarshal ex_v2_env (http_body ex_v2_env) = Some ex_metadata_v2" by code_simp
  have h2: "Version (NetworkConfig_of ex_metadata_v2) \<noteq> 1" by code_simp
  from main_rejects_version [OF h1 h2, of ex_world] h1 h2 show ?thesis by simp
qed

text \<open>
  C4. The calls of a run are: the listing of the interfaces, the calls of the
  activation, the calls of the fetch, and last the calls of the deactivation. The
  activation runs only when \<open>haveLink\<close> is false and a fallback exists: it sets the
  interface up, then adds the link-local address, and sets the interface down again
  when adding the address failed. The deactivation (remove the address, set the
  interface down) is made exactly when \<open>haveLink\<close> is false, a fallback exists, and both
  calls of the activation succeeded, whatever the calls of the fetch do; after a failed
  activation there is no deactivation.
\<close>

theorem main_deactivation:
  "events w (snd (main E w)) =
     outcomes E (length (trace w))
       (NetlinkLinkList # activation_calls E w @
        fetch_calls E (fetch_index E w) (files w) @ deactivate_calls E w)
   \<and> probe E w = links_loop (if faults E (length (trace w)) = None then links E else []) (False, None)
   \<and> activation_calls E w =
       (if fst (probe E w) then []
        else case snd (probe E w) of
               None \<Rightarrow> []
             | Some link \<Rightarrow>
                 NetlinkLinkSetUp (LinkName link) #
                 (if faults E (Suc (length (trace w))) \<noteq> None then []
                  else NetlinkAddrAdd (LinkName link) llAddr #
                       (if faults E (Suc (Suc (length (trace w)))) \<noteq> None
                        then [NetlinkLinkSetDown (LinkName link)] else [])))
   \<and> deactivate_calls E w =
       (case snd (probe E w) of
          None \<Rightarrow> []
        | Some link \<Rightarrow>
            if \<not> fst (probe E w) \<and> faults E (Suc (length (trace w))) = None
               \<and> faults E (Suc (Suc (length (trace w)))) = None
            then [NetlinkAddrDel (LinkName link) llAddr, NetlinkLinkSetDown (LinkName link)]
            else [])
   \<and> (deactivate_calls E w \<noteq> []) =
       (\<not> fst (probe E w) \<and> snd (probe E w) \<noteq> None
        \<and> faults E (Suc (length (trace w))) = None
        \<and> faults E (Suc (Suc (length (trace w)))) = None)"
  by (auto simp add: events_def main_trace main_calls_def probe_def listed_def activation_calls_def
      activate_calls_def deactivate_calls_def active_link_def activated_def split: option.splits)

theorem main_deactivation_witness:
  "probe (ex_main_env\<lparr>faults := ex_addr_add_faults\<rparr>) ex_world = (False, Some \<lparr>LinkName = ''eth0'', Flags = 18\<rparr>)
   \<and> activation_calls (ex_main_env\<lparr>faults := ex_addr_add_faults\<rparr>) ex_world =
        [NetlinkLinkSetUp ''eth0'', NetlinkAddrAdd ''eth0'' llAddr, NetlinkLinkSetDown ''eth0'']
   \<and> deactivate_calls (ex_main_env\<lparr>faults := ex_addr_add_faults\<rparr>) ex_world = []
   \<and> deactivate_calls ex_main_env ex_world = [NetlinkAddrDel ''eth0'' llAddr, NetlinkLinkSetDown ''eth0'']
   \<and> events ex_world (snd (main (ex_main_env\<lparr>faults := ex_addr_add_faults\<rparr>) ex_world)) =
        [(NetlinkLinkList, True), (NetlinkLinkSetUp ''eth0'', True), (NetlinkAddrAdd ''eth0'' llAddr, False),
         (NetlinkLinkSetDown ''eth0'', True), (HttpGet metadata_url, False)]"
proof -
  let ?E = "ex_main_env\<lparr>faults := ex_addr_add_faults\<rparr>"
  have h1: "probe ?E ex_world = (False, Some \<lparr>LinkName = ''eth0'', Flags = 18\<rparr>)"
    by code_simp
  have h2: "probe ex_main_env ex_world = (False, Some \<lparr>LinkName = ''eth0'', Flags = 18\<rparr>)"
    by code_simp
  have h3: "faults ?E (Suc (length (trace ex_world))) = None"
    "faults ?E (Suc (Suc (length (trace ex_world)))) \<noteq> None"
    "faults ex_main_env (Suc (length (trace ex_world))) = None"
    "faults ex_main_env (Suc (Suc (length (trace ex_world)))) = None"
    by code_simp+
  have h4: "events ex_world (snd (main ?E ex_world)) =
        [(NetlinkLinkList, True), (NetlinkLinkSetUp ''eth0'', True), (NetlinkAddrAdd ''eth0'' llAddr, False),
         (NetlinkLinkSetDown ''eth0'', True), (HttpGet metadata_url, False)]"
    by code_simp
  note a = main_deactivation [of ex_world ?E, THEN conjunct2, THEN conjunct2, THEN conjunct1]
  note d = main_deactivation [of ex_world ?E, THEN conjunct2, THEN conjunct2, THEN conjunct2, THEN conjunct1]
  note d' = main_deactivation [of ex_world ex_main_env, THEN conjunct2, THEN conjunct2, THEN conjunct2, THEN conjunct1]
  have c1: "activation_calls ?E ex_world =
        [NetlinkLinkSetUp ''eth0'', NetlinkAddrAdd ''eth0'' llAddr, NetlinkLinkSetDown ''eth0'']"
    unfolding a h1 using h3(1,2) by simp
  have c2: "deactivate_calls ?E ex_world = []"
    unfolding d h1 using h3(1,2) by simp
  have c3: "deactivate_calls ex_main_env ex_world = [NetlinkAddrDel ''eth0'' llAddr, NetlinkLinkSetDown ''eth0'']"
    unfolding d' h2 using h3(3,4) by simp
  from h1 c1 c2 c3 h4 show ?thesis by blast
qed

subsection \<open>A run depends only on the outcomes of the calls it makes\<close>

lemma os_local:
  assumes "f (length (trace w)) = faults E (length (trace w))"
  shows "os_WriteFile (E\<lparr>faults := f\<rparr>) p c w = os_WriteFile E p c w"
    and "os_Remove (E\<lparr>faults := f\<rparr>) p w = os_Remove E p w"
    and "os_MkdirAll (E\<lparr>faults := f\<rparr>) p w = os_MkdirAll E p w"
    and "os_ReadDir (E\<lparr>faults := f\<rparr>) p w = os_ReadDir E p w"
  using assms by (simp_all add: os_WriteFile_def os_Remove_def os_MkdirAll_def os_ReadDir_def syscall_def)

lemma write_loop_local:
  "\<forall>i < length (trace w) + length (write_calls es). f i = faults E i \<Longrightarrow>
   write_loop (E\<lparr>faults := f\<rparr>) es ok w = write_loop E es ok w"
proof (induction es arbitrary: ok w)
  case Nil
  show ?case by simp
next
  case (Cons e es)
  show ?case
  proof (cases "is_physical e")
    case False
    with Cons show ?thesis by (simp add: write_loop_Cons)
  next
    case True
    with Cons.prems have here: "f (length (trace w)) = faults E (length (trace w))"
      by simp
    let ?w1 = "snd (os_WriteFile E (configPath e) (render_config e) w)"
    have ih1: "write_loop (E\<lparr>faults := f\<rparr>) es ok' ?w1 = write_loop E es ok' ?w1" for ok'
      by (rule Cons.IH) (use Cons.prems True in simp)
    have ih2: "write_loop (E\<lparr>faults := f\<rparr>) es ok' (log_Printf l ?w1) = write_loop E es ok' (log_Printf l ?w1)" for ok' l
      by (rule Cons.IH) (use Cons.prems True in simp)
    show ?thesis
      using True here by (simp add: write_loop_Cons os_local ih1 ih2)
  qed
qed

lemma remove_loop_local:
  "\<forall>i < length (trace w) + length (remove_calls ns). f i = faults E i \<Longrightarrow>
   remove_loop (E\<lparr>faults := f\<rparr>) ns ok w = remove_loop E ns ok w"
proof (induction ns arbitrary: ok w)
  case Nil
  show ?case by simp
next
  case (Cons n ns)
  show ?case
  proof (cases "is_config_name n")
    case False
    with Cons show ?thesis by (simp add: remove_loop_Cons)
  next
    case True
    with Cons.prems have here: "f (length (trace w)) = faults E (length (trace w))"
      by simp
    let ?w1 = "snd (os_Remove E (ConfigDir @ ''/'' @ n) w)"
    have ih1: "remove_loop (E\<lparr>faults := f\<rparr>) ns ok' ?w1 = remove_loop E ns ok' ?w1" for ok'
      by (rule Cons.IH) (use Cons.prems True in simp)
    have ih2: "remove_loop (E\<lparr>faults := f\<rparr>) ns ok' (log_Printf l ?w1) = remove_loop E ns ok' (log_Printf l ?w1)" for ok' l
      by (rule Cons.IH) (use Cons.prems True in simp)
    show ?thesis
      using True here ih1 ih2 by (simp add: remove_loop_Cons os_local)
  qed
qed

lemma writeConfigs_local:
  assumes "\<forall>i < length (trace w) + length (sync_calls E (length (trace w)) (files w) es). f i = faults E i"
  shows "writeConfigs (E\<lparr>faults := f\<rparr>) es w = writeConfigs E es w"
proof -
  let ?E' = "E\<lparr>faults := f\<rparr>"
  let ?n = "length (trace w)"
  from assms have a0: "f ?n = faults E ?n" and a1: "f (Suc ?n) = faults E (Suc ?n)"
    by (simp_all add: sync_calls_def)
  define ok1 where "ok1 = fst (os_MkdirAll E ConfigDir w)"
  define w1 where "w1 = (if ok1 then snd (os_MkdirAll E ConfigDir w)
           else log_Printf (LogCreating ConfigDir) (snd (os_MkdirAll E ConfigDir w)))"
  have w1: "length (trace w1) = Suc ?n" "files w1 = files w"
    by (simp_all add: w1_def)
  have c: "cleanup ?E' ok1 w1 = cleanup E ok1 w1"
  proof (cases "faults E (Suc ?n) = None")
    case True
    with assms have "\<forall>i < length (trace (snd (os_ReadDir E ConfigDir w1))) +
        length (remove_calls (dir_entries ConfigDir (files w1))). f i = faults E i"
      by (simp add: sync_calls_def w1)
    from remove_loop_local [OF this] True a1 show ?thesis
      by (simp add: cleanup_eq w1 os_local)
  next
    case False
    with a1 show ?thesis
      by (auto simp add: cleanup_eq w1 os_local)
  qed
  have "length (trace (snd (cleanup E ok1 w1))) + length (write_calls es) =
        ?n + length (sync_calls E ?n (files w) es)"
    by (simp add: cleanup_trace w1 sync_calls_def)
  with assms have "\<forall>i < length (trace (snd (cleanup E ok1 w1))) + length (write_calls es). f i = faults E i"
    by simp
  then have wl: "write_loop ?E' es ok' (snd (cleanup E ok1 w1)) = write_loop E es ok' (snd (cleanup E ok1 w1))" for ok'
    by (rule write_loop_local)
  have lhs: "writeConfigs ?E' es w = write_loop ?E' es (fst (cleanup ?E' ok1 w1)) (snd (cleanup ?E' ok1 w1))"
    using a0 by (simp add: writeConfigs_eq os_local ok1_def w1_def)
  have rhs: "writeConfigs E es w = write_loop E es (fst (cleanup E ok1 w1)) (snd (cleanup E ok1 w1))"
    by (simp add: writeConfigs_eq ok1_def w1_def)
  show ?thesis
    unfolding lhs rhs c wl ..
qed

lemma activate_local:
  "\<forall>i < length (trace w) + length (activate_calls E fe (length (trace w))). f i = faults E i \<Longrightarrow>
   activate (E\<lparr>faults := f\<rparr>) fe w = activate E fe w"
  by (cases fe)
     (auto simp add: activate_def activate_calls_def netlink_defs log_Printf_def Let_def
      split: bool.splits if_splits)

lemma list_links_local:
  "f (length (trace w)) = faults E (length (trace w)) \<Longrightarrow>
   list_links (E\<lparr>faults := f\<rparr>) w = list_links E w"
  by (simp add: list_links_def netlink_LinkList_def syscall_def split: option.splits)

lemma fetch_local:
  assumes "\<forall>i < length (trace w) + length (fetch_calls E (length (trace w)) (files w)). f i = faults E i"
  shows "fetch (E\<lparr>faults := f\<rparr>) w = fetch E w"
proof -
  let ?E' = "E\<lparr>faults := f\<rparr>"
  let ?n = "length (trace w)"
  from assms have a0: "f ?n = faults E ?n"
    by (simp add: fetch_calls_def)
  show ?thesis
  proof (cases "faults E ?n = None \<and> http_status E = 200")
    case False
    with a0 assms show ?thesis
      by (auto simp add: fetch_defs fetch_calls_def Let_def split_beta split: bool.splits)
  next
    case True
    with assms have a1: "f (Suc ?n) = faults E (Suc ?n)"
      by (simp add: fetch_calls_def)
    show ?thesis
    proof (cases "faults E (Suc ?n) = None")
      case False
      with a0 a1 True assms show ?thesis
        by (auto simp add: fetch_defs fetch_calls_def Let_def split_beta split: bool.splits)
    next
      case r: True
      show ?thesis
      proof (cases "decoded E")
        case None
        with a0 a1 True r assms show ?thesis
          by (auto simp add: fetch_defs fetch_calls_def Let_def split_beta split: option.splits if_splits bool.splits)
      next
        case (Some es)
        define w2 where "w2 = w\<lparr>trace := trace w @ [(HttpGet metadata_url, True), (IoReadAll, True)]\<rparr>"
        have "\<forall>i < length (trace w2) + length (sync_calls E (length (trace w2)) (files w2) es). f i = faults E i"
          using assms True r Some by (simp add: fetch_calls_def w2_def)
        then have wc: "writeConfigs ?E' es w2 = writeConfigs E es w2"
          by (rule writeConfigs_local)
        have len: "length (trace (snd (writeConfigs E es w2))) =
            Suc (Suc ?n) + length (sync_calls E (Suc (Suc ?n)) (files w) es)"
          by (simp add: writeConfigs_trace w2_def)
        with assms True r Some have a2: "f (length (trace (snd (writeConfigs E es w2)))) =
            faults E (length (trace (snd (writeConfigs E es w2))))"
          by (simp add: fetch_calls_def)
        from Some have es: "yaml_Unmarshal E (http_body E) \<noteq> None"
          "Version (NetworkConfig_of (the (yaml_Unmarshal E (http_body E)))) = 1"
          "Config (NetworkConfig_of (the (yaml_Unmarshal E (http_body E)))) = es"
          by (auto simp add: decoded_def split: option.splits if_splits)
        show ?thesis
          using a0 a1 a2 True r es wc
          by (auto simp add: fetch_def http_Get_def io_ReadAll_def syscall_def Let_def split_beta
              simp flip: w2_def split: bool.splits)
      qed
    qed
  qed
qed

lemma before_deactivate_local:
  assumes "\<forall>i < length (trace (snd (snd (snd (before_deactivate E w))))). f i = faults E i"
  shows "before_deactivate (E\<lparr>faults := f\<rparr>) w = before_deactivate E w"
proof -
  let ?E' = "E\<lparr>faults := f\<rparr>"
  let ?n = "length (trace w)"
  let ?w1 = "snd (list_links E w)"
  let ?h = "fst (probe E w)" and ?fe = "snd (probe E w)"
  let ?w2 = "if \<not> ?h then snd (activate E ?fe ?w1) else ?w1"
  have len1: "length (trace ?w1) = Suc ?n"
    by (simp add: list_links_eq)
  have len2: "length (trace ?w2) = fetch_index E w"
    by (simp add: activate_trace len1 fetch_index_def activation_calls_def list_links_eq)
  have files2: "files ?w2 = files w"
    by simp
  have bound: "length (trace (snd (snd (snd (before_deactivate E w))))) =
      fetch_index E w + length (fetch_calls E (fetch_index E w) (files w))"
    by (simp add: before_deactivate_parts fetch_index_def)
  from assms have a0: "f ?n = faults E ?n"
    by (simp add: bound fetch_index_def)
  have l: "list_links ?E' w = list_links E w"
    using a0 by (rule list_links_local)
  have p: "links_loop (fst (list_links E w)) (False, None) = probe E w"
    by (simp add: probe_def list_links_eq)
  have a: "activate ?E' ?fe ?w1 = activate E ?fe ?w1" if "\<not> ?h"
    by (rule activate_local) (use assms that in \<open>simp add: bound fetch_index_def activation_calls_def len1\<close>)
  have "\<forall>i < length (trace ?w2) + length (fetch_calls E (length (trace ?w2)) (files ?w2)). f i = faults E i"
    using assms unfolding bound len2 files2 .
  then have ft: "fetch ?E' ?w2 = fetch E ?w2"
    by (rule fetch_local)
  show ?thesis
    using a ft by (auto simp add: before_deactivate_def l p Let_def split_beta)
qed

text \<open>
  C9 as stated fails: in the run below the removal of the address and setting the
  interface down both fail, the exit status is 0, and the log is empty.
\<close>

theorem main_deactivation_logged_counterexample:
  "fst (main (ex_main_env\<lparr>faults := ex_deactivate_faults\<rparr>) ex_world) = 0
   \<and> (NetlinkAddrDel ''eth0'' llAddr, False) \<in>
        set (events ex_world (snd (main (ex_main_env\<lparr>faults := ex_deactivate_faults\<rparr>) ex_world)))
   \<and> (NetlinkLinkSetDown ''eth0'', False) \<in>
        set (events ex_world (snd (main (ex_main_env\<lparr>faults := ex_deactivate_faults\<rparr>) ex_world)))
   \<and> log (snd (main (ex_main_env\<lparr>faults := ex_deactivate_faults\<rparr>) ex_world)) = []"
  by code_simp

text \<open>
  C9, amended. When the deactivation is performed, the outcomes of its two calls (the
  removal of the address and setting the interface down) have no influence on the exit
  status, on the log or on the files: a run that differs only in these outcomes exits
  with the same status and writes the same log lines. A failure of the deactivation
  is not logged.
\<close>

theorem main_deactivation_unlogged:
  assumes "deactivate_calls E w \<noteq> []"
    and "\<forall>i < length (trace (snd (main E w))) - 2. f i = faults E i"
  shows "fst (main (E\<lparr>faults := f\<rparr>) w) = fst (main E w)
       \<and> log (snd (main (E\<lparr>faults := f\<rparr>) w)) = log (snd (main E w))
       \<and> files (snd (main (E\<lparr>faults := f\<rparr>) w)) = files (snd (main E w))
       \<and> map fst (trace (snd (main (E\<lparr>faults := f\<rparr>) w))) = map fst (trace (snd (main E w)))"
proof -
  from assms(1) obtain l where l: "active_link E w = Some l"
    by (auto simp add: deactivate_calls_def split: option.splits)
  then have h: "\<not> fst (probe E w)"
    by (auto simp add: active_link_def split: if_splits)
  have "length (trace (snd (main E w))) = length (trace (snd (snd (snd (before_deactivate E w))))) + 2"
    using h l by (simp add: main_eq split_beta before_deactivate_parts(1,2) deactivate_trace)
  with assms(2) have "\<forall>i < length (trace (snd (snd (snd (before_deactivate E w))))). f i = faults E i"
    by simp
  then have "before_deactivate (E\<lparr>faults := f\<rparr>) w = before_deactivate E w"
    by (rule before_deactivate_local)
  then show ?thesis
    using h l by (simp add: main_eq split_beta before_deactivate_parts(1,2) deactivate_trace)
qed

theorem main_deactivation_unlogged_witness:
  "deactivate_calls ex_main_env ex_world \<noteq> []
   \<and> length (trace (snd (main ex_main_env ex_world))) - 2 = 10
   \<and> ex_deactivate_faults 10 \<noteq> faults ex_main_env 10
   \<and> fst (main (ex_main_env\<lparr>faults := ex_deactivate_faults\<rparr>) ex_world) = fst (main ex_main_env ex_world)
   \<and> log (snd (main (ex_main_env\<lparr>faults := ex_deactivate_faults\<rparr>) ex_world)) =
       log (snd (main ex_main_env ex_world))"
proof -
  have h1: "deactivate_calls ex_main_env ex_world \<noteq> []" by code_simp
  have h2: "length (trace (snd (main ex_main_env ex_world))) - 2 = 10" by code_simp
  have h3: "ex_deactivate_faults 10 \<noteq> faults ex_main_env 10" by code_simp
  have h4: "\<forall>i < length (trace (snd (main ex_main_env ex_world))) - 2. ex_deactivate_faults i = faults ex_main_env i"
    unfolding h2 by (simp add: ex_deactivate_faults_def ex_main_env_def)
  from main_deactivation_unlogged [OF h1 h4] h1 h2 h3 show ?thesis by simp
qed

end
